theory Spec2Isabelle
  imports Main "HOL-Library.Char_ord" "HOL-Library.List_Lexorder"
begin

section \<open>BinAssist: the analysis store and the settings store\<close>

text \<open>
  A shallow embedding of \<^verbatim>\<open>src/services/analysis_db_service.py\<close> and
  \<^verbatim>\<open>src/services/settings_service.py\<close>. Every SQL statement is read as the
  function on tables it denotes, every Python exception as a value of \<open>error\<close>.
\<close>

subsection \<open>Exceptions\<close>

datatype error = ValueError | RuntimeError | TypeError | AttributeError | KeyError

subsection \<open>JSON documents\<close>

text \<open>
  What \<^verbatim>\<open>json.loads\<close> returns: \<^verbatim>\<open>None\<close>, \<^verbatim>\<open>bool\<close>, \<^verbatim>\<open>int\<close>,
  \<^verbatim>\<open>float\<close>, \<^verbatim>\<open>str\<close>, \<^verbatim>\<open>list\<close> and \<^verbatim>\<open>dict\<close> with string keys. A dict
  is an association list in insertion order. A float is \<open>m * 2 ^ e\<close>, an infinity or a
  NaN; the code only tests floats for truth and prints them.
\<close>

datatype pyfloat = Finite int int | PosInf | NegInf | NaN

datatype json =
    JNull
  | JBool bool
  | JInt int
  | JFloat pyfloat
  | JStr string
  | JList "json list"
  | JDict "(string \<times> json) list"

subsection \<open>Tables\<close>

text \<open>
  A table is its rows in insertion order and the counter behind
  \<^verbatim>\<open>INTEGER PRIMARY KEY AUTOINCREMENT\<close>: \<^verbatim>\<open>cursor.lastrowid\<close> of an insert
  is the counter after it was incremented.
\<close>

record 'r table =
  rows :: "'r list"
  sequence :: int

definition empty_table :: "'r table" where
  "empty_table = \<lparr>rows = [], sequence = 0\<rparr>"

definition insert_row :: "(int \<Rightarrow> 'r) \<Rightarrow> 'r table \<Rightarrow> int \<times> 'r table" where
  "insert_row mk t =
     (let i = sequence t + 1
      in (i, \<lparr>rows = rows t @ [mk i], sequence = i\<rparr>))"

subsection \<open>Chat rows\<close>

text \<open>
  \<^verbatim>\<open>BNChatHistory\<close> and \<^verbatim>\<open>BNChatMessages\<close> share the columns of
  \<open>chat_row\<close>; each extends them.
\<close>

record db_row =
  row_id :: int

record keyed_row = db_row +
  binary_hash :: string

record chat_row = keyed_row +
  chat_id :: string
  message_order :: int
  role :: string


record message_row = chat_row +
  provider_type :: string
  native_message_data :: string
  content_text :: string
  message_type :: string
  parent_message_id :: "int option"
  conversation_thread_id :: "string option"

text \<open>\<^verbatim>\<open>WHERE binary_hash = ? AND chat_id = ?\<close>\<close>

definition in_chat :: "string \<Rightarrow> string \<Rightarrow> 'a chat_row_scheme \<Rightarrow> bool" where
  "in_chat bh cid r = (binary_hash r = bh \<and> chat_id r = cid)"

definition chat_orders :: "'a chat_row_scheme list \<Rightarrow> string \<Rightarrow> string \<Rightarrow> int list" where
  "chat_orders rs bh cid = map message_order (filter (in_chat bh cid) rs)"

text \<open>SQL \<^verbatim>\<open>MAX\<close>: \<^verbatim>\<open>NULL\<close> over no rows.\<close>

fun sql_max :: "int list \<Rightarrow> int option" where
  "sql_max [] = None"
| "sql_max (x # xs) = Some (fold max xs x)"

text \<open>\<^verbatim>\<open>SELECT COALESCE(MAX(message_order), -1) + 1 ... WHERE binary_hash = ? AND chat_id = ?\<close>\<close>

definition next_message_order :: "'a chat_row_scheme list \<Rightarrow> string \<Rightarrow> string \<Rightarrow> int" where
  "next_message_order rs bh cid =
     (case sql_max (chat_orders rs bh cid) of None \<Rightarrow> - 1 | Some m \<Rightarrow> m) + 1"

text \<open>\<^verbatim>\<open>UNIQUE(binary_hash, chat_id, message_order)\<close>: would the insert violate it?\<close>

definition order_taken :: "'a chat_row_scheme list \<Rightarrow> string \<Rightarrow> string \<Rightarrow> int \<Rightarrow> bool" where
  "order_taken rs bh cid n = (n \<in> set (chat_orders rs bh cid))"

subsection \<open>Chat history\<close>

text \<open>
  \<^verbatim>\<open>save_chat_message\<close>. \<open>dumps\<close> is \<^verbatim>\<open>json.dumps\<close>; the metadata is
  stored when it is given and truthy. A constraint violation is the
  \<^verbatim>\<open>RuntimeError\<close> of the handler, after the rollback.
\<close>

fun truthy :: "json \<Rightarrow> bool" where
  "truthy JNull = False"
| "truthy (JBool b) = b"
| "truthy (JInt i) = (i \<noteq> 0)"
| "truthy (JFloat (Finite m e)) = (m \<noteq> 0)"
| "truthy (JFloat _) = True"
| "truthy (JStr s) = (s \<noteq> [])"
| "truthy (JList xs) = (xs \<noteq> [])"
| "truthy (JDict kvs) = (kvs \<noteq> [])"


text \<open>
  Modelled from the spec: the schema of \<^verbatim>\<open>BNChatMessages\<close> is created by the
  migrations, which are not among these files. The data model gives the table one row
  per \<^verbatim>\<open>(binary_hash, chat_id, message_order)\<close>, the unique key of
  \<^verbatim>\<open>BNChatHistory\<close>.
\<close>

definition message_order_taken :: "message_row list \<Rightarrow> string \<Rightarrow> string \<Rightarrow> int \<Rightarrow> bool" where
  "message_order_taken rs bh cid n = order_taken rs bh cid n"

text \<open>
  An \<^verbatim>\<open>int\<close> bound to a statement must fit SQLite's signed 64 bit
  \<^verbatim>\<open>INTEGER\<close>; \<^verbatim>\<open>sqlite3\<close> raises an \<^verbatim>\<open>OverflowError\<close> for any other, and
  \<^verbatim>\<open>None\<close> is bound as \<^verbatim>\<open>NULL\<close>.
\<close>

definition sqlite_integer :: "int \<Rightarrow> bool" where
  "sqlite_integer i = (- (2 ^ 63) \<le> i \<and> i < 2 ^ 63)"

definition bindable :: "int option \<Rightarrow> bool" where
  "bindable v = (case v of None \<Rightarrow> True | Some i \<Rightarrow> sqlite_integer i)"

text \<open>
  \<^verbatim>\<open>save_native_message\<close>. \<open>valid\<close> is membership of the enumeration
  \<^verbatim>\<open>ProviderType\<close> and \<open>extract\<close> is \<^verbatim>\<open>extract_display_info\<close> of the message
  format service, both outside these files and parameters here. The insert binds
  \<^verbatim>\<open>parent_message_id\<close>; an id that does not fit raises in
  \<^verbatim>\<open>cursor.execute\<close>, and the handler rolls back and raises the
  \<^verbatim>\<open>RuntimeError\<close>, as it does for a violated constraint.
\<close>

definition save_native_message ::
  "(string \<Rightarrow> bool) \<Rightarrow> ((string \<times> json) list \<Rightarrow> string \<Rightarrow> error + string \<times> string \<times> string) \<Rightarrow>
   (json \<Rightarrow> string) \<Rightarrow> message_row table \<Rightarrow> string \<Rightarrow> string \<Rightarrow> (string \<times> json) list \<Rightarrow>
   string \<Rightarrow> int option \<Rightarrow> string option \<Rightarrow> error + (int \<times> message_row table)" where
  "save_native_message valid extract dumps t bh cid native_message ptype parent thread =
     (if \<not> valid ptype then Inl ValueError
      else case extract native_message ptype of
          Inl e \<Rightarrow> Inl e
        | Inr (rl, ctext, mtype) \<Rightarrow>
            (let n = next_message_order (rows t) bh cid
             in if \<not> bindable parent then Inl RuntimeError
                else if message_order_taken (rows t) bh cid n then Inl RuntimeError
                else Inr (insert_row (\<lambda>i. \<lparr>row_id = i, binary_hash = bh, chat_id = cid,
                       message_order = n, role = rl, provider_type = ptype,
                       native_message_data = dumps (JDict native_message),
                       content_text = ctext, message_type = mtype,
                       parent_message_id = parent,
                       conversation_thread_id = thread\<rparr>) t)))"



type_synonym native_request =
  "string \<times> string \<times> (string \<times> json) list \<times> string \<times> int option \<times> string option"

fun save_native_messages ::
  "(string \<Rightarrow> bool) \<Rightarrow> ((string \<times> json) list \<Rightarrow> string \<Rightarrow> error + string \<times> string \<times> string) \<Rightarrow>
   (json \<Rightarrow> string) \<Rightarrow> message_row table \<Rightarrow> native_request list \<Rightarrow> error + message_row table" where
  "save_native_messages valid extract dumps t [] = Inr t"
| "save_native_messages valid extract dumps t ((bh, cid, nm, ptype, parent, thread) # qs) =
     (case save_native_message valid extract dumps t bh cid nm ptype parent thread of
        Inl e \<Rightarrow> Inl e
      | Inr (i, t') \<Rightarrow> save_native_messages valid extract dumps t' qs)"

text \<open>The requests of a sequence that go to one chat.\<close>

definition to_chat :: "string \<Rightarrow> string \<Rightarrow> string \<times> string \<times> 'a \<Rightarrow> bool" where
  "to_chat bh cid q = (fst q = bh \<and> fst (snd q) = cid)"

text \<open>
  A request that passes the checks before the insert and whose parent id can be bound.
\<close>

definition accepted ::
  "(string \<Rightarrow> bool) \<Rightarrow> ((string \<times> json) list \<Rightarrow> string \<Rightarrow> error + string \<times> string \<times> string) \<Rightarrow>
   native_request \<Rightarrow> bool" where
  "accepted valid extract q =
     (case q of (bh, cid, nm, ptype, parent, thread) \<Rightarrow>
        valid ptype \<and> (case extract nm ptype of Inl e \<Rightarrow> False | Inr d \<Rightarrow> True) \<and>
        bindable parent)"

subsection \<open>Message orders are dense\<close>

lemma fold_max_ge: "(x::int) \<le> fold max xs x"
proof (induction xs arbitrary: x)
  case Nil then show ?case by simp
next
  case (Cons a xs)
  have "x \<le> max a x" by simp
  also have "\<dots> \<le> fold max xs (max a x)" by (rule Cons.IH)
  finally show ?case by simp
qed

lemma fold_max_ub: "y \<in> set xs \<Longrightarrow> (y::int) \<le> fold max xs x"
proof (induction xs arbitrary: x)
  case Nil then show ?case by simp
next
  case (Cons a xs)
  show ?case
  proof (cases "y = a")
    case True
    have "a \<le> max a x" by simp
    also have "\<dots> \<le> fold max xs (max a x)" by (rule fold_max_ge)
    finally show ?thesis using True by simp
  next
    case False
    then show ?thesis using Cons by simp
  qed
qed

lemma next_message_order_fresh: "\<not> order_taken rs bh cid (next_message_order rs bh cid)"
proof (cases "chat_orders rs bh cid")
  case Nil
  then show ?thesis by (simp add: order_taken_def)
next
  case (Cons x xs)
  have "\<And>y. y \<in> set (x # xs) \<Longrightarrow> y \<le> fold max xs x"
    using fold_max_ge[of x xs] fold_max_ub[of _ xs x] by auto
  then have "fold max xs x + 1 \<notin> set (x # xs)" by force
  then show ?thesis using Cons by (simp add: order_taken_def next_message_order_def)
qed

lemma fold_max_upt: "fold max (map int [Suc a..<b]) (int a) = int (max a (b - 1))"
proof (induction "b - Suc a" arbitrary: a)
  case 0
  then show ?case by (auto simp: max_def)
next
  case (Suc n)
  then have ab: "Suc a < b" by simp
  then have "[Suc a..<b] = Suc a # [Suc (Suc a)..<b]" by (simp add: upt_conv_Cons)
  moreover have "fold max (map int [Suc (Suc a)..<b]) (int (Suc a)) = int (max (Suc a) (b - 1))"
    using Suc(1)[of "Suc a"] Suc(2) by simp
  moreover have "max (int (Suc a)) (int a) = int (Suc a)" by simp
  moreover have "max (Suc a) (b - 1) = max a (b - 1)" using ab by simp
  ultimately show ?case by (simp del: of_nat_Suc upt_Suc)
qed

lemma next_message_order_dense:
  assumes "chat_orders rs bh cid = map int [0..<k]"
  shows "next_message_order rs bh cid = int k"
proof (cases k)
  case 0
  then show ?thesis using assms by (simp add: next_message_order_def)
next
  case (Suc n)
  then have "[0..<k] = 0 # [Suc 0..<k]" by (simp add: upt_conv_Cons)
  then show ?thesis using assms fold_max_upt[of 0 k] Suc
    by (simp add: next_message_order_def)
qed

lemma chat_orders_append:
  "chat_orders (rs @ [r]) bh cid =
     chat_orders rs bh cid @ (if in_chat bh cid r then [message_order r] else [])"
  by (simp add: chat_orders_def)



lemma save_native_message_overflow:
  assumes "valid ptype" and "extract nm ptype = Inr (rl, ctext, mtype)" and "\<not> bindable parent"
  shows "save_native_message valid extract dumps t bh cid nm ptype parent thread = Inl RuntimeError"
  using assms by (simp add: save_native_message_def Let_def)

lemma save_native_message_overflow_example:
  "save_native_message (\<lambda>p. True) (\<lambda>nm p. Inr (''user'', ''hi'', ''text'')) (\<lambda>j. ''{}'')
     empty_table ''b'' ''c'' [] ''openai'' (Some 9223372036854775808) None = Inl RuntimeError \<and>
   (\<exists>r. save_native_message (\<lambda>p. True) (\<lambda>nm p. Inr (''user'', ''hi'', ''text'')) (\<lambda>j. ''{}'')
     empty_table ''b'' ''c'' [] ''openai'' (Some 9223372036854775807) None = Inr r)"
  by (simp add: save_native_message_def Let_def bindable_def sqlite_integer_def
      message_order_taken_def next_message_order_fresh)

lemma save_native_message_inserts:
  assumes "valid ptype" and "extract nm ptype = Inr (rl, ctext, mtype)" and "bindable parent"
  shows "save_native_message valid extract dumps t bh cid nm ptype parent thread =
     Inr (insert_row (\<lambda>i. \<lparr>row_id = i, binary_hash = bh, chat_id = cid,
            message_order = next_message_order (rows t) bh cid, role = rl, provider_type = ptype,
            native_message_data = dumps (JDict nm),
            content_text = ctext, message_type = mtype,
            parent_message_id = parent,
            conversation_thread_id = thread\<rparr>) t)"
  using assms
  by (simp add: save_native_message_def Let_def message_order_taken_def next_message_order_fresh)

lemma chat_orders_insert_row:
  "chat_orders (rows (snd (insert_row mk t))) bh cid =
     chat_orders (rows t) bh cid @
       (if in_chat bh cid (mk (sequence t + 1)) then [message_order (mk (sequence t + 1))] else [])"
  by (simp add: insert_row_def Let_def chat_orders_append)






subsection \<open>System prompts\<close>

text \<open>
  \<^verbatim>\<open>SystemPrompts\<close> and \<^verbatim>\<open>llm_providers\<close> both carry
  \<^verbatim>\<open>is_active BOOLEAN DEFAULT 0\<close>. The version of a prompt has no unique key.
\<close>

record flag_row = db_row +
  is_active :: bool

record prompt_row = flag_row +
  prompt :: string
  version :: string

text \<open>\<^verbatim>\<open>UPDATE ... SET is_active = 0\<close>, then \<^verbatim>\<open>UPDATE ... SET is_active = 1 WHERE ...\<close>\<close>

definition deactivate_all :: "'a flag_row_scheme list \<Rightarrow> 'a flag_row_scheme list" where
  "deactivate_all rs = map (\<lambda>r. r\<lparr>is_active := False\<rparr>) rs"

definition activate_where ::
  "('a flag_row_scheme \<Rightarrow> bool) \<Rightarrow> 'a flag_row_scheme list \<Rightarrow> 'a flag_row_scheme list" where
  "activate_where p rs = map (\<lambda>r. if p r then r\<lparr>is_active := True\<rparr> else r) rs"

definition save_system_prompt :: "string \<Rightarrow> string \<Rightarrow> prompt_row table \<Rightarrow> int \<times> prompt_row table" where
  "save_system_prompt p v t =
     insert_row (\<lambda>i. \<lparr>row_id = i, is_active = False, prompt = p, version = v\<rparr>) t"

text \<open>The result is \<^verbatim>\<open>cursor.rowcount > 0\<close> of the second update.\<close>

definition set_active_system_prompt :: "string \<Rightarrow> prompt_row table \<Rightarrow> bool \<times> prompt_row table" where
  "set_active_system_prompt v t =
     (let rs = deactivate_all (rows t);
          updated = (0 < length (filter (\<lambda>r. version r = v) rs))
      in (updated, t\<lparr>rows := activate_where (\<lambda>r. version r = v) rs\<rparr>))"

text \<open>The operations of the store on this table, and the states they reach.\<close>

datatype prompt_op = SaveSystemPrompt string string | SetActiveSystemPrompt string

fun prompt_step :: "prompt_row table \<Rightarrow> prompt_op \<Rightarrow> prompt_row table" where
  "prompt_step t (SaveSystemPrompt p v) = snd (save_system_prompt p v t)"
| "prompt_step t (SetActiveSystemPrompt v) = snd (set_active_system_prompt v t)"

definition prompt_store :: "prompt_op list \<Rightarrow> prompt_row table" where
  "prompt_store ops = foldl prompt_step empty_table ops"

definition active_rows :: "'a flag_row_scheme list \<Rightarrow> 'a flag_row_scheme list" where
  "active_rows rs = filter is_active rs"

definition one_active_version :: "prompt_row list \<Rightarrow> bool" where
  "one_active_version rs =
     list_all (\<lambda>r. list_all (\<lambda>r'. version r = version r') (active_rows rs)) (active_rows rs)"

subsection \<open>LLM providers\<close>

record provider_row = flag_row +
  name :: string
  model :: string
  url :: string
  max_tokens :: int
  api_key :: string
  disable_tls :: bool
  llm_provider_type :: string

text \<open>A setting is its value, its type and its category, under its primary key.\<close>

record settings_store =
  llm_providers :: "provider_row table"
  settings :: "string \<rightharpoonup> string \<times> string \<times> string"

text \<open>\<^verbatim>\<open>_serialize_value\<close> of a \<^verbatim>\<open>str\<close>: the last branch.\<close>

definition serialize_value :: "string \<Rightarrow> string \<times> string" where
  "serialize_value v = (v, ''string'')"

text \<open>\<^verbatim>\<open>name TEXT UNIQUE NOT NULL\<close>: the integrity error is a \<^verbatim>\<open>ValueError\<close>.\<close>

definition add_llm_provider ::
  "string \<Rightarrow> string \<Rightarrow> string \<Rightarrow> int \<Rightarrow> string \<Rightarrow> bool \<Rightarrow> string \<Rightarrow> settings_store \<Rightarrow>
   error + int \<times> settings_store" where
  "add_llm_provider n m u mt k tls pt st =
     (if list_ex (\<lambda>r. name r = n) (rows (llm_providers st)) then Inl ValueError
      else (case insert_row (\<lambda>i. \<lparr>row_id = i, is_active = False, name = n, model = m, url = u,
                   max_tokens = mt, api_key = k, disable_tls = tls,
                   llm_provider_type = pt\<rparr>) (llm_providers st) of
              (i, t) \<Rightarrow> Inr (i, st\<lparr>llm_providers := t\<rparr>)))"

definition set_active_llm_provider :: "string \<Rightarrow> settings_store \<Rightarrow> bool \<times> settings_store" where
  "set_active_llm_provider provider_name st =
     (let t = llm_providers st;
          rs = activate_where (\<lambda>r. name r = provider_name) (deactivate_all (rows t));
          (value_str, value_type) = serialize_value provider_name
      in (True, st\<lparr>llm_providers := t\<lparr>rows := rs\<rparr>,
                    settings := (settings st)(''active_llm_provider'' \<mapsto>
                                   (value_str, value_type, ''ui''))\<rparr>))"

subsection \<open>Activation of prompts and providers\<close>

lemma active_rows_set_active':
  "active_rows (activate_where (\<lambda>r. version r = v) (deactivate_all rs)) =
     map (\<lambda>r. r\<lparr>is_active := True\<rparr>) (filter (\<lambda>r. version r = v) rs)"
  by (induction rs) (auto simp: active_rows_def deactivate_all_def activate_where_def)

lemma one_active_version_set_active:
  "one_active_version (rows (snd (set_active_system_prompt v t)))"
  by (simp add: one_active_version_def set_active_system_prompt_def Let_def
      active_rows_set_active' list_all_iff)

lemma one_active_version_save:
  "one_active_version (rows t) \<Longrightarrow> one_active_version (rows (snd (save_system_prompt p v t)))"
  by (simp add: one_active_version_def save_system_prompt_def insert_row_def Let_def active_rows_def)

lemma one_active_version_step:
  "one_active_version (rows t) \<Longrightarrow> one_active_version (rows (prompt_step t x))"
  by (cases x) (simp_all add: one_active_version_save one_active_version_set_active)

lemma one_active_version_foldl:
  "one_active_version (rows t) \<Longrightarrow> one_active_version (rows (foldl prompt_step t ops))"
  by (induction ops arbitrary: t) (simp_all add: one_active_version_step)

lemma one_active_version_reachable: "one_active_version (rows (prompt_store ops))"
  unfolding prompt_store_def
  by (rule one_active_version_foldl) (simp add: one_active_version_def empty_table_def active_rows_def)

text \<open>
  Claim C5, as amended. In every state reached from the empty table by
  \<^verbatim>\<open>save_system_prompt\<close> and \<^verbatim>\<open>set_active_system_prompt\<close>, all active rows carry
  one version. \<^verbatim>\<open>set_active_system_prompt\<close> leaves active exactly the rows of the given
  version, changes no prompt and no version, and returns whether a row has that version:
  one row is active afterwards when one row has the version, none when none has it.
  \<^verbatim>\<open>save_system_prompt\<close> appends an inactive row and changes no other.
\<close>

theorem active_prompts_share_version:
  "one_active_version (rows (prompt_store ops)) \<and>
   map is_active (rows (snd (set_active_system_prompt v t))) = map (\<lambda>r. version r = v) (rows t) \<and>
   map version (rows (snd (set_active_system_prompt v t))) = map version (rows t) \<and>
   map prompt (rows (snd (set_active_system_prompt v t))) = map prompt (rows t) \<and>
   length (active_rows (rows (snd (set_active_system_prompt v t)))) =
     length (filter (\<lambda>r. version r = v) (rows t)) \<and>
   fst (set_active_system_prompt v t) = (0 < length (filter (\<lambda>r. version r = v) (rows t))) \<and>
   rows (snd (save_system_prompt p v t)) =
     rows t @ [\<lparr>row_id = sequence t + 1, is_active = False, prompt = p, version = v\<rparr>]"
proof -
  have a: "map is_active (rows (snd (set_active_system_prompt v t))) = map (\<lambda>r. version r = v) (rows t)"
    by (simp add: set_active_system_prompt_def Let_def deactivate_all_def activate_where_def)
  have b: "map version (rows (snd (set_active_system_prompt v t))) = map version (rows t)"
    by (simp add: set_active_system_prompt_def Let_def deactivate_all_def activate_where_def)
  have b': "map prompt (rows (snd (set_active_system_prompt v t))) = map prompt (rows t)"
    by (simp add: set_active_system_prompt_def Let_def deactivate_all_def activate_where_def)
  have c: "length (active_rows (rows (snd (set_active_system_prompt v t)))) =
     length (filter (\<lambda>r. version r = v) (rows t))"
    by (simp add: set_active_system_prompt_def Let_def active_rows_set_active')
  have d: "fst (set_active_system_prompt v t) = (0 < length (filter (\<lambda>r. version r = v) (rows t)))"
    by (simp add: set_active_system_prompt_def Let_def deactivate_all_def filter_map comp_def)
  have e: "rows (snd (save_system_prompt p v t)) =
     rows t @ [\<lparr>row_id = sequence t + 1, is_active = False, prompt = p, version = v\<rparr>]"
    by (simp add: save_system_prompt_def insert_row_def Let_def)
  from one_active_version_reachable a b b' c d e show ?thesis by blast
qed

text \<open>
  The claim as stated fails: two prompts saved under one version are both active after
  that version is activated.
\<close>

theorem two_active_prompts_counterexample:
  "length (active_rows (rows (prompt_store
      [SaveSystemPrompt ''first'' ''v1'', SaveSystemPrompt ''second'' ''v1'',
       SetActiveSystemPrompt ''v1'']))) = 2"
  by (simp add: prompt_store_def save_system_prompt_def set_active_system_prompt_def
      insert_row_def empty_table_def Let_def deactivate_all_def activate_where_def active_rows_def)

theorem active_prompts_share_version_witness:
  "one_active_version (rows (prompt_store
      [SaveSystemPrompt ''first'' ''v1'', SaveSystemPrompt ''second'' ''v2'',
       SetActiveSystemPrompt ''v2''])) \<and>
   map is_active (rows (snd (set_active_system_prompt ''v2''
      \<lparr>rows = [\<lparr>row_id = 1, is_active = True, prompt = ''first'', version = ''v1''\<rparr>,
               \<lparr>row_id = 2, is_active = False, prompt = ''second'', version = ''v2''\<rparr>],
        sequence = 2\<rparr>))) = [False, True] \<and>
   fst (set_active_system_prompt ''v3''
      \<lparr>rows = [\<lparr>row_id = 1, is_active = True, prompt = ''first'', version = ''v1''\<rparr>],
        sequence = 1\<rparr>) = False"
  using active_prompts_share_version[of
      "[SaveSystemPrompt ''first'' ''v1'', SaveSystemPrompt ''second'' ''v2'',
        SetActiveSystemPrompt ''v2'']" "''v2''"
      "\<lparr>rows = [\<lparr>row_id = 1, is_active = True, prompt = ''first'', version = ''v1''\<rparr>,
               \<lparr>row_id = 2, is_active = False, prompt = ''second'', version = ''v2''\<rparr>],
        sequence = 2\<rparr>"]
    active_prompts_share_version[of "[]" "''v3''"
      "\<lparr>rows = [\<lparr>row_id = 1, is_active = True, prompt = ''first'', version = ''v1''\<rparr>],
        sequence = 1\<rparr>"]
  by simp

text \<open>
  A settings store with one provider, active; it is the state after
  \<^verbatim>\<open>add_llm_provider\<close> and \<^verbatim>\<open>set_active_llm_provider\<close> of that provider.
\<close>

definition one_provider_store :: settings_store where
  "one_provider_store =
     \<lparr>llm_providers =
        \<lparr>rows = [\<lparr>row_id = 1, is_active = True, name = ''local'', model = ''m'',
                   url = ''http://localhost'', max_tokens = 4096, api_key = [],
                   disable_tls = False, llm_provider_type = ''openai''\<rparr>],
         sequence = 1\<rparr>,
      settings = [''active_llm_provider'' \<mapsto> (''local'', ''string'', ''ui'')]\<rparr>"

lemma one_provider_store_reached:
  "(case add_llm_provider ''local'' ''m'' ''http://localhost'' 4096 [] False ''openai''
           \<lparr>llm_providers = empty_table, settings = Map.empty\<rparr> of
      Inl e \<Rightarrow> None
    | Inr (i, st) \<Rightarrow> Some (snd (set_active_llm_provider ''local'' st))) = Some one_provider_store"
  by (simp add: add_llm_provider_def set_active_llm_provider_def insert_row_def empty_table_def
      Let_def deactivate_all_def activate_where_def serialize_value_def one_provider_store_def)

lemma activate_where_none:
  "\<not> list_ex p rs \<Longrightarrow> activate_where p rs = rs"
  by (induction rs) (auto simp: activate_where_def)

lemma list_ex_deactivate_all:
  "list_ex (\<lambda>r. name r = n) (deactivate_all rs) = list_ex (\<lambda>r. name r = n) rs"
  by (induction rs) (auto simp: deactivate_all_def)

text \<open>
  Claim C6, as amended. When no provider has the given name,
  \<^verbatim>\<open>set_active_llm_provider\<close> returns \<^verbatim>\<open>True\<close>, leaves every provider inactive
  (the rows are those of the first update) and records the name under the setting
  \<^verbatim>\<open>active_llm_provider\<close>.
\<close>

theorem set_active_unknown_provider:
  assumes "\<not> list_ex (\<lambda>r. name r = n) (rows (llm_providers st))"
  shows "fst (set_active_llm_provider n st) = True \<and>
         rows (llm_providers (snd (set_active_llm_provider n st))) =
           deactivate_all (rows (llm_providers st)) \<and>
         active_rows (rows (llm_providers (snd (set_active_llm_provider n st)))) = [] \<and>
         settings (snd (set_active_llm_provider n st)) ''active_llm_provider'' =
           Some (n, ''string'', ''ui'')"
proof -
  have "\<not> list_ex (\<lambda>r. name r = n) (deactivate_all (rows (llm_providers st)))"
    using assms by (simp add: list_ex_deactivate_all)
  then have same: "activate_where (\<lambda>r. name r = n) (deactivate_all (rows (llm_providers st))) =
      deactivate_all (rows (llm_providers st))"
    by (rule activate_where_none)
  have none: "active_rows (deactivate_all rs) = []" for rs :: "provider_row list"
    by (induction rs) (auto simp: active_rows_def deactivate_all_def)
  show ?thesis
    by (simp add: set_active_llm_provider_def Let_def serialize_value_def same none)
qed

theorem set_active_unknown_provider_witness:
  "\<not> list_ex (\<lambda>r. name r = ''absent'') (rows (llm_providers one_provider_store)) \<and>
   fst (set_active_llm_provider ''absent'' one_provider_store) = True \<and>
   active_rows (rows (llm_providers (snd (set_active_llm_provider ''absent'' one_provider_store)))) = [] \<and>
   settings (snd (set_active_llm_provider ''absent'' one_provider_store)) ''active_llm_provider'' =
     Some (''absent'', ''string'', ''ui'')"
proof -
  have h: "\<not> list_ex (\<lambda>r. name r = ''absent'') (rows (llm_providers one_provider_store))"
    by (simp add: one_provider_store_def)
  from set_active_unknown_provider[OF h] h show ?thesis by blast
qed

text \<open>
  The claim as stated fails: the provider that was active is inactive after the call,
  and the call returns \<^verbatim>\<open>True\<close>.
\<close>

theorem set_active_unknown_provider_counterexample:
  "map is_active (rows (llm_providers one_provider_store)) = [True] \<and>
   map is_active (rows (llm_providers (snd (set_active_llm_provider ''absent'' one_provider_store))))
     = [False] \<and>
   fst (set_active_llm_provider ''absent'' one_provider_store) = True"
  by (simp add: one_provider_store_def set_active_llm_provider_def Let_def deactivate_all_def
      activate_where_def serialize_value_def)

subsection \<open>Python strings\<close>

text \<open>
  A \<^verbatim>\<open>str\<close> is a list of code points below 256. \<^verbatim>\<open>str.strip()\<close> removes the
  characters for which \<^verbatim>\<open>str.isspace\<close> holds from both ends: in this range the
  tab, line feed, vertical tab, form feed, carriage return, the four separators
  \<^verbatim>\<open>0x1C\<close> to \<^verbatim>\<open>0x1F\<close>, the space, \<^verbatim>\<open>0x85\<close> and \<^verbatim>\<open>0xA0\<close>.
\<close>

definition isspace :: "char \<Rightarrow> bool" where
  "isspace c = (c \<in> set [CHR 0x09, CHR 0x0A, CHR 0x0B, CHR 0x0C, CHR 0x0D, CHR 0x1C, CHR 0x1D,
                          CHR 0x1E, CHR 0x1F, CHR 0x20, CHR 0x85, CHR 0xA0])"

definition lstrip :: "string \<Rightarrow> string" where
  "lstrip s = dropWhile isspace s"

definition rstrip :: "string \<Rightarrow> string" where
  "rstrip s = rev (dropWhile isspace (rev s))"

definition strip :: "string \<Rightarrow> string" where
  "strip s = rstrip (lstrip s)"

text \<open>\<^verbatim>\<open>s.startswith(p)\<close>\<close>

fun startswith :: "string \<Rightarrow> string \<Rightarrow> bool" where
  "startswith s [] = True"
| "startswith [] (p # ps) = False"
| "startswith (c # cs) (p # ps) = (c = p \<and> startswith cs ps)"

text \<open>\<^verbatim>\<open>sub in s\<close>\<close>

fun contains :: "string \<Rightarrow> string \<Rightarrow> bool" where
  "contains [] sub = (sub = [])"
| "contains (c # cs) sub = (startswith (c # cs) sub \<or> contains cs sub)"

text \<open>\<^verbatim>\<open>s.split(sep)[0]\<close>, for a separator that is not empty: the text before its first occurrence.\<close>

fun split_first :: "string \<Rightarrow> string \<Rightarrow> string" where
  "split_first [] sep = []"
| "split_first (c # cs) sep = (if startswith (c # cs) sep then [] else c # split_first cs sep)"

text \<open>
  \<^verbatim>\<open>s.replace(old, new)\<close>, for \<open>old\<close> not empty: every occurrence, left to right,
  without overlap. The counter is the number of characters of a match still to skip.
\<close>

fun replace_from :: "string \<Rightarrow> string \<Rightarrow> nat \<Rightarrow> string \<Rightarrow> string" where
  "replace_from old new k [] = []"
| "replace_from old new (Suc k) (c # cs) = replace_from old new k cs"
| "replace_from old new 0 (c # cs) =
     (if startswith (c # cs) old then new @ replace_from old new (length old - 1) cs
      else c # replace_from old new 0 cs)"

definition replace :: "string \<Rightarrow> string \<Rightarrow> string \<Rightarrow> string" where
  "replace s old new = replace_from old new 0 s"

subsection \<open>Cleaning a user message\<close>

text \<open>\<^verbatim>\<open>_clean_user_message_for_display\<close>\<close>

definition clean_user_message_for_display :: "string \<Rightarrow> string" where
  "clean_user_message_for_display ctext =
     (if contains ctext ''Available MCP Tools''
      then strip (split_first ctext ''Available MCP Tools'')
      else if contains ctext ''**RAG Context**''
      then strip (split_first ctext ''**RAG Context**'')
      else strip (if contains ctext ''Use the available tool calls as needed.''
                  then replace ctext ''\<newline>\<newline>Use the available tool calls as needed.'' []
                  else ctext))"

subsection \<open>Grouping the rows of a transcript\<close>

text \<open>
  A message of \<^verbatim>\<open>raw_messages\<close>: the columns of the row and the decoded payload.
\<close>

record raw_message = message_row +
  native_data :: "(string \<times> json) list"

text \<open>\<^verbatim>\<open>_choose_better_assistant_message\<close>\<close>

definition choose_better_assistant_message ::
  "'a message_row_scheme \<Rightarrow> 'a message_row_scheme \<Rightarrow> 'a message_row_scheme" where
  "choose_better_assistant_message msg1 msg2 =
     (let content1 = strip (content_text msg1);
          content2 = strip (content_text msg2)
      in if length content2 > length content1 then msg2
         else if length content1 > length content2 then msg1
         else if message_order msg2 > message_order msg1 then msg2
         else msg1)"

text \<open>
  \<^verbatim>\<open>_group_and_deduplicate_messages\<close>. The inner loop collects the assistant messages
  from index \<open>j\<close> on and returns where it stopped; the outer loop runs on the index \<open>i\<close>.
\<close>

function collect_assistant ::
  "'a message_row_scheme list \<Rightarrow> nat \<Rightarrow> 'a message_row_scheme list \<Rightarrow>
   nat \<times> 'a message_row_scheme list" where
  "collect_assistant raw j assistant_messages =
     (if j < length raw \<and> role (raw ! j) = ''assistant''
      then collect_assistant raw (j + 1) (assistant_messages @ [raw ! j])
      else (j, assistant_messages))"
  by pat_completeness auto
termination
  by (relation "measure (\<lambda>(raw, j, acc). length raw - j)") auto

declare collect_assistant.simps [simp del]

lemma collect_assistant_index: "i \<le> fst (collect_assistant raw i acc)"
proof (induction raw i acc rule: collect_assistant.induct)
  case (1 raw j acc)
  show ?case
  proof (cases "j < length raw \<and> role (raw ! j) = ''assistant''")
    case True
    with 1 have "j + 1 \<le> fst (collect_assistant raw (j + 1) (acc @ [raw ! j]))" by simp
    with True show ?thesis by (subst collect_assistant.simps) simp
  next
    case False
    then show ?thesis by (subst collect_assistant.simps) auto
  qed
qed

definition best_of :: "'a message_row_scheme \<Rightarrow> 'a message_row_scheme list \<Rightarrow> 'a message_row_scheme" where
  "best_of msg assistant_messages =
     (if length assistant_messages > 1
      then foldl choose_better_assistant_message (hd assistant_messages) (tl assistant_messages)
      else msg)"

function group_loop ::
  "'a message_row_scheme list \<Rightarrow> nat \<Rightarrow> 'a message_row_scheme list \<Rightarrow> 'a message_row_scheme list" where
  "group_loop raw i deduplicated =
     (if i < length raw then
        (let msg = raw ! i in
         if role msg = ''user'' then group_loop raw (i + 1) (deduplicated @ [msg])
         else if role msg = ''assistant'' then
           (case collect_assistant raw (i + 1) [msg] of
              (j, assistant_messages) \<Rightarrow>
                group_loop raw j (deduplicated @ [best_of msg assistant_messages]))
         else group_loop raw (i + 1) (deduplicated @ [msg]))
      else deduplicated)"
  by pat_completeness auto
termination
proof (relation "measure (\<lambda>(raw, i, acc). length raw - i)", goal_cases)
  case 1
  show ?case by simp
next
  case 2
  then show ?case by simp
next
  case (3 raw i acc msg j ms)
  have "i + 1 \<le> fst (collect_assistant raw (i + 1) [msg])" by (rule collect_assistant_index)
  moreover have "fst (collect_assistant raw (i + 1) [msg]) = j" using 3 by (metis fst_conv)
  ultimately show ?case using 3 by simp
next
  case 4
  then show ?case by simp
qed

declare group_loop.simps [simp del]

definition group_and_deduplicate_messages ::
  "'a message_row_scheme list \<Rightarrow> 'a message_row_scheme list" where
  "group_and_deduplicate_messages raw_messages =
     (if raw_messages = [] then [] else group_loop raw_messages 0 [])"

subsection \<open>Runs of assistant rows collapse\<close>

definition is_assistant :: "'a message_row_scheme \<Rightarrow> bool" where
  "is_assistant m = (role m = ''assistant'')"

text \<open>
  The synthesizer as the specification words it: a row that is not an assistant row
  passes through; a maximal run of consecutive assistant rows becomes one row, the left
  fold of the better-of-two choice over the run.
\<close>

function collapse_runs :: "'a message_row_scheme list \<Rightarrow> 'a message_row_scheme list" where
  "collapse_runs [] = []"
| "collapse_runs (m # ms) =
     (if is_assistant m
      then foldl choose_better_assistant_message m (takeWhile is_assistant ms)
             # collapse_runs (dropWhile is_assistant ms)
      else m # collapse_runs ms)"
  by pat_completeness auto
termination
  by (relation "measure length") (auto simp: length_dropWhile_le less_Suc_eq_le)

text \<open>
  Two assistant rows next to each other.
\<close>

fun adjacent_assistants :: "'a message_row_scheme list \<Rightarrow> bool" where
  "adjacent_assistants (a # b # ms) =
     ((is_assistant a \<and> is_assistant b) \<or> adjacent_assistants (b # ms))"
| "adjacent_assistants ms = False"

lemma collect_assistant_takeWhile:
  "collect_assistant raw j acc =
     (j + length (takeWhile is_assistant (drop j raw)),
      acc @ takeWhile is_assistant (drop j raw))"
proof (induction raw j acc rule: collect_assistant.induct)
  case (1 raw j acc)
  show ?case
  proof (cases "j < length raw \<and> role (raw ! j) = ''assistant''")
    case True
    then have d: "drop j raw = raw ! j # drop (Suc j) raw"
      by (simp add: Cons_nth_drop_Suc)
    from True 1 have "collect_assistant raw (j + 1) (acc @ [raw ! j]) =
        (j + 1 + length (takeWhile is_assistant (drop (j + 1) raw)),
         (acc @ [raw ! j]) @ takeWhile is_assistant (drop (j + 1) raw))"
      by simp
    with True d show ?thesis
      by (subst collect_assistant.simps) (simp add: is_assistant_def)
  next
    case False
    show ?thesis
    proof (cases "j < length raw")
      case True
      then have d: "drop j raw = raw ! j # drop (Suc j) raw"
        by (simp add: Cons_nth_drop_Suc)
      with False True show ?thesis
        by (subst collect_assistant.simps) (simp add: is_assistant_def)
    next
      case False
      then show ?thesis by (subst collect_assistant.simps) simp
    qed
  qed
qed

lemma best_of_fold:
  "best_of msg (msg # ms) = foldl choose_better_assistant_message msg ms"
  by (cases ms) (simp_all add: best_of_def)

lemma group_loop_collapse:
  "group_loop raw i acc = acc @ collapse_runs (drop i raw)"
proof (induction raw i acc rule: group_loop.induct)
  case (1 raw i acc)
  show ?case
  proof (cases "i < length raw")
    case False
    then show ?thesis by (subst group_loop.simps) simp
  next
    case True
    then have d: "drop i raw = raw ! i # drop (Suc i) raw"
      by (simp add: Cons_nth_drop_Suc)
    show ?thesis
    proof (cases "role (raw ! i) = ''user''")
      case user: True
      with True 1(1)[OF True refl user] d show ?thesis
        by (subst group_loop.simps) (simp add: is_assistant_def)
    next
      case nuser: False
      show ?thesis
      proof (cases "role (raw ! i) = ''assistant''")
        case asst: True
        define tw where "tw = takeWhile is_assistant (drop (Suc i) raw)"
        have c: "collect_assistant raw (i + 1) [raw ! i] = (i + 1 + length tw, raw ! i # tw)"
          by (simp add: collect_assistant_takeWhile tw_def)
        have dd: "drop (i + 1 + length tw) raw = dropWhile is_assistant (drop (Suc i) raw)"
          by (simp add: tw_def dropWhile_eq_drop add.commute)
        from 1(2)[OF True refl nuser asst c[symmetric]]
        have "group_loop raw (i + 1 + length tw) (acc @ [best_of (raw ! i) (raw ! i # tw)]) =
            (acc @ [best_of (raw ! i) (raw ! i # tw)]) @ collapse_runs (drop (i + 1 + length tw) raw)"
          by simp
        with True nuser asst c d dd show ?thesis
          by (subst group_loop.simps) (simp add: is_assistant_def best_of_fold tw_def)
      next
        case other: False
        with True nuser 1(3)[OF True refl nuser other] d show ?thesis
          by (subst group_loop.simps) (simp add: is_assistant_def)
      qed
    qed
  qed
qed

lemma group_and_deduplicate_collapse:
  "group_and_deduplicate_messages raw = collapse_runs raw"
  by (simp add: group_and_deduplicate_messages_def group_loop_collapse)






lemma collapse_runs_hd:
  "ms \<noteq> [] \<Longrightarrow> \<not> is_assistant (hd ms) \<Longrightarrow> collapse_runs ms \<noteq> [] \<and> hd (collapse_runs ms) = hd ms"
  by (cases ms) auto

lemma adjacent_Cons:
  "adjacent_assistants (a # ms) =
     (ms \<noteq> [] \<and> ((is_assistant a \<and> is_assistant (hd ms)) \<or> adjacent_assistants ms))"
  by (cases ms) auto

lemma collapse_runs_no_adjacent: "\<not> adjacent_assistants (collapse_runs raw)"
proof (induction raw rule: collapse_runs.induct)
  case 1
  then show ?case by simp
next
  case (2 m ms)
  show ?case
  proof (cases "is_assistant m")
    case True
    define rest where "rest = dropWhile is_assistant ms"
    have h: "collapse_runs rest = [] \<or> \<not> is_assistant (hd (collapse_runs rest))"
    proof (cases rest)
      case Nil
      then show ?thesis by simp
    next
      case (Cons a as)
      then have "rest \<noteq> []" by simp
      then have "\<not> is_assistant (hd rest)" unfolding rest_def by (rule hd_dropWhile)
      with Cons show ?thesis by simp
    qed
    have ih: "\<not> adjacent_assistants (collapse_runs rest)"
      unfolding rest_def using 2(1)[OF True] .
    have "collapse_runs (m # ms) =
        foldl choose_better_assistant_message m (takeWhile is_assistant ms) # collapse_runs rest"
      using True by (simp add: rest_def)
    then show ?thesis using h ih by (simp only: adjacent_Cons) blast
  next
    case False
    with 2(2) show ?thesis by (auto simp: adjacent_Cons)
  qed
qed




subsection \<open>The cleaned user message\<close>

lemma startswith_append:
  "startswith s (p @ q) = (startswith s p \<and> startswith (drop (length p) s) q)"
  by (induction s p rule: startswith.induct) auto

lemma startswith_contains: "startswith s sub \<Longrightarrow> contains s sub"
  by (cases s) (auto elim: startswith.elims)

lemma contains_drop: "contains (drop n s) sub \<Longrightarrow> contains s sub"
proof (induction s arbitrary: n)
  case Nil
  then show ?case by simp
next
  case (Cons c cs)
  show ?case
  proof (cases n)
    case 0
    with Cons.prems show ?thesis by simp
  next
    case (Suc k)
    with Cons.prems have "contains (drop k cs) sub" by simp
    then have "contains cs sub" by (rule Cons.IH)
    then show ?thesis by simp
  qed
qed

lemma contains_suffix: "contains s (p @ q) \<Longrightarrow> contains s q"
proof (induction s)
  case Nil
  then show ?case by simp
next
  case (Cons c cs)
  from Cons.prems have "startswith (c # cs) (p @ q) \<or> contains cs (p @ q)" by simp
  then show ?case
  proof
    assume "startswith (c # cs) (p @ q)"
    then have "startswith (drop (length p) (c # cs)) q" by (simp add: startswith_append)
    then have "contains (drop (length p) (c # cs)) q" by (rule startswith_contains)
    then show ?thesis by (rule contains_drop)
  next
    assume "contains cs (p @ q)"
    then have "contains cs q" by (rule Cons.IH)
    then show ?thesis by simp
  qed
qed

lemma replace_from_absent: "\<not> contains s old \<Longrightarrow> replace_from old new 0 s = s"
  by (induction s) auto

lemma replace_absent: "\<not> contains s old \<Longrightarrow> replace s old new = s"
  by (simp add: replace_def replace_from_absent)

text \<open>
  Claim C9, as amended. The tool-enumeration marker is looked for first and the
  retrieval-context marker second; the result is the trimmed text before the first
  occurrence of the marker that was found. With neither marker, every occurrence of the
  sentence \<^verbatim>\<open>Use the available tool calls as needed.\<close> together with the two line
  feeds before it is removed, the rest is kept, and the result is trimmed. The scenario
  of the claim cleans to \<open>''Analyze this.''\<close>; a message holding both markers is cut at
  the tool-enumeration marker, wherever the other stands.
\<close>

theorem clean_user_message_markers:
  "clean_user_message_for_display c =
     (if contains c ''Available MCP Tools'' then strip (split_first c ''Available MCP Tools'')
      else if contains c ''**RAG Context**'' then strip (split_first c ''**RAG Context**'')
      else strip (replace c ''\<newline>\<newline>Use the available tool calls as needed.'' [])) \<and>
   clean_user_message_for_display
     ''Analyze this.\<newline>\<newline>Available MCP Tools\<newline>...more...'' = ''Analyze this.'' \<and>
   clean_user_message_for_display
     ''Explain main.\<newline>\<newline>Use the available tool calls as needed.'' = ''Explain main.'' \<and>
   clean_user_message_for_display
     ''Explain main.\<newline>\<newline>Use the available tool calls as needed.\<newline>Then stop.'' =
     ''Explain main.\<newline>Then stop.'' \<and>
   clean_user_message_for_display
     ''Find it. **RAG Context** docs Available MCP Tools list'' = ''Find it. **RAG Context** docs''"
proof -
  have "replace c ''\<newline>\<newline>Use the available tool calls as needed.'' [] = c"
    if "\<not> contains c ''Use the available tool calls as needed.''"
  proof -
    have "\<not> contains c (''\<newline>\<newline>'' @ ''Use the available tool calls as needed.'')"
      using that contains_suffix by blast
    then show ?thesis using replace_absent by simp
  qed
  then have general: "clean_user_message_for_display c =
     (if contains c ''Available MCP Tools'' then strip (split_first c ''Available MCP Tools'')
      else if contains c ''**RAG Context**'' then strip (split_first c ''**RAG Context**'')
      else strip (replace c ''\<newline>\<newline>Use the available tool calls as needed.'' []))"
    by (simp add: clean_user_message_for_display_def)
  have scenario: "clean_user_message_for_display
     ''Analyze this.\<newline>\<newline>Available MCP Tools\<newline>...more...'' = ''Analyze this.''"
    by (simp add: clean_user_message_for_display_def strip_def lstrip_def rstrip_def isspace_def)
  have suffix: "clean_user_message_for_display
     ''Explain main.\<newline>\<newline>Use the available tool calls as needed.'' = ''Explain main.''"
    by (simp add: clean_user_message_for_display_def strip_def lstrip_def rstrip_def isspace_def
        replace_def)
  have inner: "clean_user_message_for_display
     ''Explain main.\<newline>\<newline>Use the available tool calls as needed.\<newline>Then stop.'' =
     ''Explain main.\<newline>Then stop.''"
    by (simp add: clean_user_message_for_display_def strip_def lstrip_def rstrip_def isspace_def
        replace_def)
  have both: "clean_user_message_for_display
     ''Find it. **RAG Context** docs Available MCP Tools list'' = ''Find it. **RAG Context** docs''"
    by (simp add: clean_user_message_for_display_def strip_def lstrip_def rstrip_def isspace_def)
  from general scenario suffix inner both show ?thesis by blast
qed

text \<open>
  The claim as stated fails: the sentence at the end of a message is left in place when
  no blank line precedes it.
\<close>

theorem clean_user_message_sentence_counterexample:
  "clean_user_message_for_display ''Explain main. Use the available tool calls as needed.'' =
     ''Explain main. Use the available tool calls as needed.''"
  by (simp add: clean_user_message_for_display_def strip_def lstrip_def rstrip_def isspace_def
      replace_def)

subsection \<open>Python values as text\<close>

text \<open>Decimal digits of a natural number and of an integer: \<^verbatim>\<open>str\<close> of an \<^verbatim>\<open>int\<close>.\<close>

fun str_nat :: "nat \<Rightarrow> string" where
  "str_nat n = (if n < 10 then [''0123456789'' ! n]
                else str_nat (n div 10) @ [''0123456789'' ! (n mod 10)])"

declare str_nat.simps [simp del]

definition str_int :: "int \<Rightarrow> string" where
  "str_int i = (if i < 0 then CHR ''-'' # str_nat (nat (- i)) else str_nat (nat i))"

text \<open>
  \<^verbatim>\<open>str(v)\<close>, as an f-string formats a value. \<open>repr\<close> stands for Python's text of a
  float, a list and a dict, which is not modelled.
\<close>

definition py_str :: "(json \<Rightarrow> string) \<Rightarrow> json \<Rightarrow> string" where
  "py_str repr v =
     (case v of
        JStr s \<Rightarrow> s
      | JInt i \<Rightarrow> str_int i
      | JBool b \<Rightarrow> (if b then ''True'' else ''False'')
      | JNull \<Rightarrow> ''None''
      | _ \<Rightarrow> repr v)"

text \<open>\<^verbatim>\<open>sep.join(xs)\<close>\<close>

fun join :: "string \<Rightarrow> string list \<Rightarrow> string" where
  "join sep [] = []"
| "join sep [x] = x"
| "join sep (x # y # ys) = x @ sep @ join sep (y # ys)"

text \<open>\<^verbatim>\<open>d.get(k, default)\<close> and \<^verbatim>\<open>k in d\<close> of a dict.\<close>

definition get_default :: "(string \<times> json) list \<Rightarrow> string \<Rightarrow> json \<Rightarrow> json" where
  "get_default d k dflt = (case map_of d k of None \<Rightarrow> dflt | Some v \<Rightarrow> v)"

definition has_key :: "(string \<times> json) list \<Rightarrow> string \<Rightarrow> bool" where
  "has_key d k = (map_of d k \<noteq> None)"

text \<open>
  What a \<^verbatim>\<open>for\<close> loop runs over: the items of a list, the characters of a string,
  the keys of a dict; any other value is not iterable.
\<close>

definition py_iter :: "json \<Rightarrow> error + json list" where
  "py_iter v =
     (case v of
        JList xs \<Rightarrow> Inr xs
      | JStr s \<Rightarrow> Inr (map (\<lambda>c. JStr [c]) s)
      | JDict kvs \<Rightarrow> Inr (map (\<lambda>kv. JStr (fst kv)) kvs)
      | _ \<Rightarrow> Inl TypeError)"

subsection \<open>Tool calls of a native payload\<close>

text \<open>
  The state of the loops of \<^verbatim>\<open>_format_assistant_message_for_display\<close> is
  \<^verbatim>\<open>tool_calls_details\<close>, a list of names and arguments. \<open>loads\<close> is
  \<^verbatim>\<open>json.loads\<close> on a string, \<open>None\<close> for a \<^verbatim>\<open>JSONDecodeError\<close>.
\<close>

type_synonym tool_call = "json \<times> json"

text \<open>The Anthropic loop over the content blocks; it also sets \<^verbatim>\<open>has_tool_calls\<close>.\<close>

fun anthropic_blocks :: "json list \<Rightarrow> bool \<times> tool_call list \<Rightarrow> bool \<times> tool_call list" where
  "anthropic_blocks [] st = st"
| "anthropic_blocks (block # blocks) (has_tool_calls, details) =
     (case block of
        JDict b \<Rightarrow>
          (if map_of b ''type'' = Some (JStr ''tool_use'')
           then (let tool_name = get_default b ''name'' (JStr ''unknown'');
                     tool_input = get_default b ''input'' (JDict [])
                 in anthropic_blocks blocks
                      (True, if tool_name \<noteq> JStr ''unknown''
                             then details @ [(tool_name, tool_input)] else details))
           else anthropic_blocks blocks (has_tool_calls, details))
      | _ \<Rightarrow> anthropic_blocks blocks (has_tool_calls, details))"

text \<open>
  \<^verbatim>\<open>tc['function'].get('name', 'unknown')\<close> and
  \<^verbatim>\<open>tc['function'].get('arguments', {})\<close>: only a dict has \<^verbatim>\<open>get\<close>.
\<close>

definition function_call :: "(string \<times> json) list \<Rightarrow> error + tool_call" where
  "function_call tc =
     (case map_of tc ''function'' of
        None \<Rightarrow> Inl KeyError
      | Some (JDict f) \<Rightarrow>
          Inr (get_default f ''name'' (JStr ''unknown''), get_default f ''arguments'' (JDict []))
      | Some _ \<Rightarrow> Inl AttributeError)"

text \<open>Arguments that are a string are parsed; what does not parse is kept under \<^verbatim>\<open>raw_args\<close>.\<close>

definition parse_arguments :: "(string \<Rightarrow> json option) \<Rightarrow> json \<Rightarrow> json" where
  "parse_arguments loads tool_args =
     (case tool_args of
        JStr s \<Rightarrow> (case loads s of Some v \<Rightarrow> v | None \<Rightarrow> JDict [(''raw_args'', JStr s)])
      | _ \<Rightarrow> tool_args)"

definition add_call :: "(string \<Rightarrow> json option) \<Rightarrow> tool_call \<Rightarrow> tool_call list \<Rightarrow> tool_call list" where
  "add_call loads call details =
     (case call of (tool_name, tool_args) \<Rightarrow>
        (let tool_args = parse_arguments loads tool_args
         in if tool_name \<noteq> JStr ''unknown'' then details @ [(tool_name, tool_args)] else details))"

text \<open>The OpenAI loop over \<^verbatim>\<open>tool_calls\<close>.\<close>

fun openai_calls :: "(string \<Rightarrow> json option) \<Rightarrow> json list \<Rightarrow> tool_call list \<Rightarrow> error + tool_call list" where
  "openai_calls loads [] details = Inr details"
| "openai_calls loads (tc # tcs) details =
     (case tc of
        JDict d \<Rightarrow>
          (if has_key d ''function''
           then (case function_call d of
                   Inl e \<Rightarrow> Inl e
                 | Inr call \<Rightarrow> openai_calls loads tcs (add_call loads call details))
           else openai_calls loads tcs details)
      | _ \<Rightarrow> openai_calls loads tcs details)"

text \<open>The Ollama loop: a call in the OpenAI shape, or with its name at the top.\<close>

fun ollama_calls :: "(string \<Rightarrow> json option) \<Rightarrow> json list \<Rightarrow> tool_call list \<Rightarrow> error + tool_call list" where
  "ollama_calls loads [] details = Inr details"
| "ollama_calls loads (tc # tcs) details =
     (case tc of
        JDict d \<Rightarrow>
          (case (if has_key d ''function'' then function_call d
                 else if has_key d ''name''
                 then Inr (get_default d ''name'' (JStr ''unknown''),
                           get_default d ''arguments'' (get_default d ''parameters'' (JDict [])))
                 else Inr (JStr ''unknown'', JDict [])) of
             Inl e \<Rightarrow> Inl e
           | Inr call \<Rightarrow> ollama_calls loads tcs (add_call loads call details))
      | _ \<Rightarrow> ollama_calls loads tcs details)"

text \<open>A loop over a value that may not be iterable.\<close>

definition over_items ::
  "(json list \<Rightarrow> tool_call list \<Rightarrow> error + tool_call list) \<Rightarrow> json \<Rightarrow> error + bool \<times> tool_call list" where
  "over_items loop v =
     (case py_iter v of
        Inl e \<Rightarrow> Inl e
      | Inr items \<Rightarrow> (case loop items [] of Inl e \<Rightarrow> Inl e | Inr details \<Rightarrow> Inr (True, details)))"

text \<open>The first part of \<^verbatim>\<open>_format_assistant_message_for_display\<close>: the branch on the provider.\<close>

definition tool_calls_of ::
  "(string \<Rightarrow> json option) \<Rightarrow> (string \<times> json) list \<Rightarrow> string \<Rightarrow> error + bool \<times> tool_call list" where
  "tool_calls_of loads nd ptype =
     (if ptype = ''anthropic'' \<and> has_key nd ''content'' then
        (case py_iter (get_default nd ''content'' JNull) of
           Inl e \<Rightarrow> Inl e
         | Inr blocks \<Rightarrow> Inr (anthropic_blocks blocks (False, [])))
      else if ptype = ''openai'' \<and> has_key nd ''tool_calls'' then
        (if truthy (get_default nd ''tool_calls'' JNull)
         then over_items (openai_calls loads) (get_default nd ''tool_calls'' JNull)
         else Inr (False, []))
      else if ptype = ''ollama'' then
        (if has_key nd ''tool_calls'' \<and> truthy (get_default nd ''tool_calls'' JNull)
         then over_items (ollama_calls loads) (get_default nd ''tool_calls'' JNull)
         else (case map_of nd ''message'' of
                 Some (JDict message_data) \<Rightarrow>
                   (if has_key message_data ''tool_calls'' \<and>
                       truthy (get_default message_data ''tool_calls'' JNull)
                    then over_items (ollama_calls loads) (get_default message_data ''tool_calls'' JNull)
                    else Inr (False, []))
               | _ \<Rightarrow> Inr (False, [])))
      else Inr (False, []))"

subsection \<open>Rendering an assistant message\<close>

definition dquote :: char where
  "dquote = CHR 0x22"

text \<open>One \<^verbatim>\<open>key=value\<close> of \<^verbatim>\<open>_format_args_compact\<close>.\<close>

definition format_arg :: "(json \<Rightarrow> string) \<Rightarrow> string \<times> json \<Rightarrow> string" where
  "format_arg repr kv =
     (case kv of (key, v) \<Rightarrow>
        (case v of
           JStr s \<Rightarrow>
             (if length s > 30 then key @ ''='' @ [dquote] @ take 30 s @ ''...'' @ [dquote]
              else key @ ''='' @ [dquote] @ s @ [dquote])
         | JList xs \<Rightarrow> key @ ''=['' @ str_nat (length xs) @ '' items]''
         | JDict kvs \<Rightarrow> key @ ''={'' @ str_nat (length kvs) @ '' keys}''
         | _ \<Rightarrow> key @ ''='' @ py_str repr v))"

text \<open>\<^verbatim>\<open>_format_args_compact\<close>: \<^verbatim>\<open>args.items()\<close> needs a dict.\<close>

definition format_args_compact :: "(json \<Rightarrow> string) \<Rightarrow> json \<Rightarrow> error + string" where
  "format_args_compact repr args =
     (if \<not> truthy args then Inr []
      else (case args of
              JDict kvs \<Rightarrow> Inr (join '', '' (map (format_arg repr) kvs))
            | _ \<Rightarrow> Inl AttributeError))"

text \<open>The numbered lines of several tool calls, from the number \<open>i\<close> on.\<close>

fun tool_lines :: "(json \<Rightarrow> string) \<Rightarrow> nat \<Rightarrow> tool_call list \<Rightarrow> error + string list" where
  "tool_lines repr i [] = Inr []"
| "tool_lines repr i ((tool_name, args) # tools) =
     (case (if truthy args then format_args_compact repr args else Inr []) of
        Inl e \<Rightarrow> Inl e
      | Inr args_str \<Rightarrow>
          (case tool_lines repr (i + 1) tools of
             Inl e \<Rightarrow> Inl e
           | Inr ls \<Rightarrow>
               Inr ((if args_str \<noteq> []
                     then ''  '' @ str_nat i @ ''. '' @ py_str repr tool_name @ ''('' @ args_str @ '')''
                     else ''  '' @ str_nat i @ ''. '' @ py_str repr tool_name) # ls)))"

text \<open>\<^verbatim>\<open>_format_tool_calls_with_params\<close>\<close>

definition format_tool_calls_with_params :: "(json \<Rightarrow> string) \<Rightarrow> tool_call list \<Rightarrow> error + string" where
  "format_tool_calls_with_params repr details =
     (case details of
        [] \<Rightarrow> Inr []
      | [(tool_name, args)] \<Rightarrow>
          (if \<not> truthy args then Inr (''[Tool: '' @ py_str repr tool_name @ '']'')
           else (case format_args_compact repr args of
                   Inl e \<Rightarrow> Inl e
                 | Inr args_str \<Rightarrow>
                     Inr (''[Tool: '' @ py_str repr tool_name @ ''('' @ args_str @ '')]'')))
      | _ \<Rightarrow>
          (case tool_lines repr 1 details of
             Inl e \<Rightarrow> Inl e
           | Inr ls \<Rightarrow> Inr (join ''\<newline>'' (''[Tools called:]'' # ls))))"

text \<open>
  The cleaning of the content text: a leading \<^verbatim>\<open>[Tools:\<close> up to the first
  \<^verbatim>\<open>]\<close> is cut off, the rest trimmed, and leading line feeds dropped.
\<close>

definition strip_tool_marker :: "string \<Rightarrow> string" where
  "strip_tool_marker ctext =
     (let clean_content = strip ctext
      in if startswith clean_content ''[Tools:'' \<and> CHR '']'' \<in> set clean_content
         then (let bracket_end = length (takeWhile (\<lambda>c. c \<noteq> CHR '']'') clean_content)
               in dropWhile (\<lambda>c. c = CHR 0x0A) (strip (drop (bracket_end + 1) clean_content)))
         else clean_content)"

text \<open>\<^verbatim>\<open>_format_assistant_message_for_display\<close>\<close>

definition format_assistant_message_for_display ::
  "(string \<Rightarrow> json option) \<Rightarrow> (json \<Rightarrow> string) \<Rightarrow> string \<Rightarrow> (string \<times> json) list \<Rightarrow> string \<Rightarrow>
   error + string" where
  "format_assistant_message_for_display loads repr ctext nd ptype =
     (case tool_calls_of loads nd ptype of
        Inl e \<Rightarrow> Inl e
      | Inr (has_tool_calls, details) \<Rightarrow>
          (let clean_content = strip_tool_marker ctext
           in if has_tool_calls \<and> details \<noteq> []
              then (case format_tool_calls_with_params repr details of
                      Inl e \<Rightarrow> Inl e
                    | Inr tool_details_text \<Rightarrow>
                        (if clean_content \<noteq> []
                         then Inr (tool_details_text @ ''\<newline>\<newline>'' @ clean_content)
                         else Inr tool_details_text))
              else Inr clean_content))"

subsection \<open>Rendering a tool message\<close>

text \<open>\<^verbatim>\<open>s.split()\<close>: the words between runs of whitespace; \<open>cur\<close> is the word being read.\<close>

fun split_words :: "string \<Rightarrow> string \<Rightarrow> string list" where
  "split_words cur [] = (if cur = [] then [] else [cur])"
| "split_words cur (c # cs) =
     (if isspace c then (if cur = [] then split_words [] cs else cur # split_words [] cs)
      else split_words (cur @ [c]) cs)"

text \<open>\<^verbatim>\<open>s.split('\n')\<close>\<close>

fun split_lines :: "string \<Rightarrow> string list" where
  "split_lines [] = [] # []"
| "split_lines (c # cs) =
     (if c = CHR 0x0A then [] # split_lines cs
      else (c # hd (split_lines cs)) # tl (split_lines cs))"

text \<open>The name read off the first line that starts with \<^verbatim>\<open>Tool:\<close> or \<^verbatim>\<open>**Tool:**\<close>.\<close>

definition tool_name_in :: "string \<Rightarrow> string" where
  "tool_name_in clean_content =
     (case find (\<lambda>line. startswith (strip line) ''Tool:'' \<or> startswith (strip line) ''**Tool:**'')
             (split_lines clean_content) of
        None \<Rightarrow> ''Tool''
      | Some line \<Rightarrow>
          (let parts = split_words [] line
           in if length parts \<ge> 2 then replace (replace (parts ! 1) ''`'' []) ''*'' []
              else ''Tool''))"

text \<open>\<^verbatim>\<open>_format_tool_message_for_display\<close>\<close>

definition format_tool_message_for_display ::
  "(json \<Rightarrow> string) \<Rightarrow> string \<Rightarrow> (string \<times> json) list \<Rightarrow> string" where
  "format_tool_message_for_display repr ctext nd =
     (if ctext = [] \<or> strip ctext = [] then []
      else (let clean_content = strip ctext;
                tool_name = (if nd \<noteq> [] \<and> has_key nd ''name''
                             then py_str repr (get_default nd ''name'' JNull)
                             else if contains clean_content ''Tool:''
                             then tool_name_in clean_content
                             else ''Tool'')
            in if length clean_content > 200
               then ''**'' @ tool_name @ '' Result:**\<newline>```\<newline>'' @ take 200 clean_content
                      @ ''...\<newline>\<newline>[Tool result truncated for display]'' @ ''\<newline>```''
               else ''**'' @ tool_name @ '' Result:**\<newline>```\<newline>'' @ clean_content
                      @ ''\<newline>```''))"

subsection \<open>Rendering any message\<close>

text \<open>\<^verbatim>\<open>try: ... except Exception: handler\<close>\<close>

definition try_except :: "error + 'a \<Rightarrow> (error \<Rightarrow> error + 'a) \<Rightarrow> error + 'a" where
  "try_except body handler = (case body of Inl e \<Rightarrow> handler e | Inr v \<Rightarrow> Inr v)"

text \<open>\<^verbatim>\<open>_format_message_for_display\<close>\<close>

definition format_message_for_display ::
  "(string \<Rightarrow> json option) \<Rightarrow> (json \<Rightarrow> string) \<Rightarrow> string \<Rightarrow> string \<Rightarrow> string \<Rightarrow> string \<Rightarrow>
   (string \<times> json) list \<Rightarrow> error + string" where
  "format_message_for_display loads repr rl ctext mtype ptype nd =
     try_except
       (if rl = ''user'' then Inr (clean_user_message_for_display ctext)
        else if rl = ''assistant'' then format_assistant_message_for_display loads repr ctext nd ptype
        else if rl = ''tool'' then Inr (format_tool_message_for_display repr ctext nd)
        else Inr ctext)
       (\<lambda>e. Inr ctext)"

subsection \<open>The rendering of tool calls\<close>

lemma str_int_4096: "str_int 4096 = ''4096''"
  by (simp add: str_int_def str_nat.simps)

text \<open>
  The \<^verbatim>\<open>tool_calls\<close> of the scenario: one call of \<^verbatim>\<open>get_disassembly\<close> whose arguments
  are the JSON text of an object with the key \<^verbatim>\<open>addr\<close> and the value 4096.
\<close>

definition disassembly_call :: json where
  "disassembly_call =
     JList [JDict [(''function'',
         JDict [(''name'', JStr ''get_disassembly''),
                (''arguments'', JStr (''{'' @ [dquote] @ ''addr'' @ [dquote] @ '':4096}''))])]]"

lemma disassembly_scenario:
  assumes "loads (''{'' @ [dquote] @ ''addr'' @ [dquote] @ '':4096}'') = Some (JDict [(''addr'', JInt 4096)])"
    and "map_of nd ''tool_calls'' = Some disassembly_call"
    and "strip ctext = []"
  shows "format_assistant_message_for_display loads repr ctext nd ''openai''
          = Inr ''[Tool: get_disassembly(addr=4096)]''"
proof -
  have t: "tool_calls_of loads nd ''openai'' =
      Inr (True, [(JStr ''get_disassembly'', JDict [(''addr'', JInt 4096)])])"
    using assms(1,2)
    by (simp add: tool_calls_of_def disassembly_call_def has_key_def get_default_def
        over_items_def py_iter_def function_call_def add_call_def parse_arguments_def)
  have f: "format_tool_calls_with_params repr [(JStr ''get_disassembly'', JDict [(''addr'', JInt 4096)])]
      = Inr ''[Tool: get_disassembly(addr=4096)]''"
    by (simp add: format_tool_calls_with_params_def format_args_compact_def format_arg_def
        py_str_def str_int_4096)
  have c: "strip_tool_marker ctext = []"
    using assms(3) by (simp add: strip_tool_marker_def)
  show ?thesis
    by (simp add: format_assistant_message_for_display_def t f c)
qed

text \<open>
  Claim C8. With \<^verbatim>\<open>json.loads\<close> reading the argument text as the object it
  denotes, an OpenAI payload with these \<^verbatim>\<open>tool_calls\<close> and a content text that is
  empty once trimmed renders as \<^verbatim>\<open>[Tool: get_disassembly(addr=4096)]\<close>. An
  argument prints as \<^verbatim>\<open>key=value\<close>: a string between double quotes, cut to its first
  30 characters and \<^verbatim>\<open>...\<close> when it is longer; an integer in decimal; a boolean as
  \<^verbatim>\<open>True\<close> or \<^verbatim>\<open>False\<close>; a float as Python prints it; a list as
  \<^verbatim>\<open>[N items]\<close> and a dict as \<^verbatim>\<open>{N keys}\<close>. The arguments of a call are
  joined by a comma and a space.
\<close>

theorem tool_call_rendering:
  assumes "loads (''{'' @ [dquote] @ ''addr'' @ [dquote] @ '':4096}'') = Some (JDict [(''addr'', JInt 4096)])"
    and "map_of nd ''tool_calls'' = Some disassembly_call"
    and "strip ctext = []"
  shows "format_assistant_message_for_display loads repr ctext nd ''openai''
           = Inr ''[Tool: get_disassembly(addr=4096)]'' \<and>
         format_arg repr (key, JStr s) =
           key @ ''='' @ [dquote] @ (if length s > 30 then take 30 s @ ''...'' else s) @ [dquote] \<and>
         format_arg repr (key, JInt i) = key @ ''='' @ str_int i \<and>
         format_arg repr (key, JBool b) = key @ ''='' @ (if b then ''True'' else ''False'') \<and>
         format_arg repr (key, JFloat x) = key @ ''='' @ repr (JFloat x) \<and>
         format_arg repr (key, JList xs) = key @ ''=['' @ str_nat (length xs) @ '' items]'' \<and>
         format_arg repr (key, JDict kvs) = key @ ''={'' @ str_nat (length kvs) @ '' keys}'' \<and>
         format_args_compact repr (JDict ((key, v) # kvs)) =
           Inr (join '', '' (map (format_arg repr) ((key, v) # kvs)))"
proof -
  have "format_arg repr (key, JStr s) =
           key @ ''='' @ [dquote] @ (if length s > 30 then take 30 s @ ''...'' else s) @ [dquote]"
    by (simp add: format_arg_def)
  moreover have "format_arg repr (key, JInt i) = key @ ''='' @ str_int i"
    by (simp add: format_arg_def py_str_def)
  moreover have "format_arg repr (key, JBool b) = key @ ''='' @ (if b then ''True'' else ''False'')"
    by (simp add: format_arg_def py_str_def)
  moreover have "format_arg repr (key, JFloat x) = key @ ''='' @ repr (JFloat x)"
    by (simp add: format_arg_def py_str_def)
  moreover have "format_arg repr (key, JList xs) = key @ ''=['' @ str_nat (length xs) @ '' items]''"
    by (simp add: format_arg_def)
  moreover have "format_arg repr (key, JDict kvs) = key @ ''={'' @ str_nat (length kvs) @ '' keys}''"
    by (simp add: format_arg_def)
  moreover have "format_args_compact repr (JDict ((key, v) # kvs)) =
           Inr (join '', '' (map (format_arg repr) ((key, v) # kvs)))"
    by (simp add: format_args_compact_def)
  ultimately show ?thesis using disassembly_scenario[of loads nd ctext repr] assms by blast
qed

text \<open>
  A reader of JSON text that knows the argument text of the scenario.
\<close>

definition loads_addr :: "string \<Rightarrow> json option" where
  "loads_addr s =
     (if s = ''{'' @ [dquote] @ ''addr'' @ [dquote] @ '':4096}''
      then Some (JDict [(''addr'', JInt 4096)]) else None)"

theorem tool_call_rendering_witness:
  "format_assistant_message_for_display loads_addr (\<lambda>v. ''?'') '' ''
      [(''role'', JStr ''assistant''), (''content'', JNull), (''tool_calls'', disassembly_call)]
      ''openai'' = Inr ''[Tool: get_disassembly(addr=4096)]'' \<and>
   format_args_compact (\<lambda>v. ''?'')
      (JDict [(''path'', JStr ''/usr/lib/x86_64-linux-gnu/libcrypto.so.3''), (''count'', JInt 12),
              (''deep'', JBool True), (''names'', JList [JStr ''a'', JStr ''b'', JStr ''c'']),
              (''opts'', JDict [(''x'', JNull)])]) =
     Inr (''path='' @ [dquote] @ ''/usr/lib/x86_64-linux-gnu/libc...'' @ [dquote] @
          '', count=12, deep=True, names=[3 items], opts={1 keys}'')"
proof -
  have h1: "loads_addr (''{'' @ [dquote] @ ''addr'' @ [dquote] @ '':4096}'')
      = Some (JDict [(''addr'', JInt 4096)])"
    by (simp add: loads_addr_def)
  have h2: "map_of [(''role'', JStr ''assistant''), (''content'', JNull),
      (''tool_calls'', disassembly_call)] ''tool_calls'' = Some disassembly_call"
    by simp
  have h3: "strip '' '' = []"
    by (simp add: strip_def lstrip_def rstrip_def isspace_def)
  have inst: "format_assistant_message_for_display loads_addr (\<lambda>v. ''?'') '' ''
      [(''role'', JStr ''assistant''), (''content'', JNull), (''tool_calls'', disassembly_call)]
      ''openai'' = Inr ''[Tool: get_disassembly(addr=4096)]'' \<and>
    format_args_compact (\<lambda>v. ''?'')
      (JDict [(''path'', JStr ''/usr/lib/x86_64-linux-gnu/libcrypto.so.3''), (''count'', JInt 12),
              (''deep'', JBool True), (''names'', JList [JStr ''a'', JStr ''b'', JStr ''c'']),
              (''opts'', JDict [(''x'', JNull)])]) =
      Inr (join '', '' (map (format_arg (\<lambda>v. ''?''))
         [(''path'', JStr ''/usr/lib/x86_64-linux-gnu/libcrypto.so.3''), (''count'', JInt 12),
              (''deep'', JBool True), (''names'', JList [JStr ''a'', JStr ''b'', JStr ''c'']),
              (''opts'', JDict [(''x'', JNull)])]))"
    using tool_call_rendering[where loads = loads_addr and ctext = "'' ''" and repr = "\<lambda>v. ''?''"
      and nd = "[(''role'', JStr ''assistant''), (''content'', JNull), (''tool_calls'', disassembly_call)]"
      and key = "''path''" and v = "JStr ''/usr/lib/x86_64-linux-gnu/libcrypto.so.3''"
      and kvs = "[(''count'', JInt 12),
              (''deep'', JBool True), (''names'', JList [JStr ''a'', JStr ''b'', JStr ''c'']),
              (''opts'', JDict [(''x'', JNull)])]"] h1 h2 h3
    by blast
  have n: "str_int 12 = ''12''" "str_nat (Suc (Suc (Suc 0))) = ''3''" "str_nat (Suc 0) = ''1''"
    by (simp_all add: str_int_def str_nat.simps)
  from inst have a: "format_assistant_message_for_display loads_addr (\<lambda>v. ''?'') '' ''
      [(''role'', JStr ''assistant''), (''content'', JNull), (''tool_calls'', disassembly_call)]
      ''openai'' = Inr ''[Tool: get_disassembly(addr=4096)]''"
    by blast
  from inst have b: "format_args_compact (\<lambda>v. ''?'')
      (JDict [(''path'', JStr ''/usr/lib/x86_64-linux-gnu/libcrypto.so.3''), (''count'', JInt 12),
              (''deep'', JBool True), (''names'', JList [JStr ''a'', JStr ''b'', JStr ''c'']),
              (''opts'', JDict [(''x'', JNull)])]) =
      Inr (join '', '' (map (format_arg (\<lambda>v. ''?''))
         [(''path'', JStr ''/usr/lib/x86_64-linux-gnu/libcrypto.so.3''), (''count'', JInt 12),
              (''deep'', JBool True), (''names'', JList [JStr ''a'', JStr ''b'', JStr ''c'']),
              (''opts'', JDict [(''x'', JNull)])]))"
    by blast
  show ?thesis
    unfolding b using a by (simp add: format_arg_def py_str_def n)
qed

subsection \<open>Rendering is total\<close>

text \<open>
  Claim C10. For every role, content text, message type, provider and payload,
  \<^verbatim>\<open>_format_message_for_display\<close> returns a string and raises nothing; when the
  rendering of an assistant message raises, the content text is returned as it is.
\<close>

theorem format_message_never_raises:
  "(\<exists>s. format_message_for_display loads repr rl ctext mtype ptype nd = Inr s) \<and>
   (format_assistant_message_for_display loads repr ctext nd ptype = Inl e \<longrightarrow>
      format_message_for_display loads repr ''assistant'' ctext mtype ptype nd = Inr ctext)"
proof
  show "\<exists>s. format_message_for_display loads repr rl ctext mtype ptype nd = Inr s"
    by (cases "format_assistant_message_for_display loads repr ctext nd ptype")
       (simp_all add: format_message_for_display_def try_except_def)
next
  show "format_assistant_message_for_display loads repr ctext nd ptype = Inl e \<longrightarrow>
      format_message_for_display loads repr ''assistant'' ctext mtype ptype nd = Inr ctext"
    by (simp add: format_message_for_display_def try_except_def)
qed

text \<open>
  A payload whose tool call holds a string where the function object belongs:
  \<^verbatim>\<open>tc['function'].get\<close> raises an \<^verbatim>\<open>AttributeError\<close>.
\<close>

definition malformed_call :: "(string \<times> json) list" where
  "malformed_call = [(''tool_calls'', JList [JDict [(''function'', JStr ''get_disassembly'')]])]"

theorem format_message_never_raises_witness:
  "format_assistant_message_for_display (\<lambda>s. None) (\<lambda>v. []) ''Looking it up.'' malformed_call
     ''openai'' = Inl AttributeError \<and>
   format_message_for_display (\<lambda>s. None) (\<lambda>v. []) ''assistant'' ''Looking it up.'' ''tool_call''
     ''openai'' malformed_call = Inr ''Looking it up.''"
proof -
  have r: "format_assistant_message_for_display (\<lambda>s. None) (\<lambda>v. []) ''Looking it up.''
      malformed_call ''openai'' = Inl AttributeError"
    by (simp add: format_assistant_message_for_display_def tool_calls_of_def malformed_call_def
        has_key_def get_default_def over_items_def py_iter_def function_call_def)
  from format_message_never_raises[of "\<lambda>s. None" "\<lambda>v. []" "''assistant''" "''Looking it up.''"
      "''tool_call''" "''openai''" malformed_call AttributeError] r
  show ?thesis by blast
qed

subsection \<open>A stored tool marker is replaced\<close>

lemma rstrip_Cons:
  "rstrip (a # as) = (if isspace a \<and> rstrip as = [] then [] else a # rstrip as)"
  by (auto simp: rstrip_def dropWhile_append dropWhile_eq_Nil_conv)

lemma rstrip_Nil: "rstrip [] = []"
  by (simp add: rstrip_def)

lemma rstrip_rstrip: "rstrip (rstrip s) = rstrip s"
  by (simp add: rstrip_def)

lemma lstrip_rstrip: "lstrip (rstrip s) = rstrip (lstrip s)"
proof (induction s)
  case Nil
  then show ?case by (simp add: lstrip_def rstrip_def)
next
  case (Cons a as)
  show ?case
  proof (cases "isspace a")
    case False
    then show ?thesis by (simp add: rstrip_Cons lstrip_def)
  next
    case True
    have l: "lstrip (a # as) = lstrip as" using True by (simp add: lstrip_def)
    show ?thesis
    proof (cases "rstrip as = []")
      case True
      with \<open>isspace a\<close> have "lstrip (rstrip (a # as)) = []"
        by (simp add: rstrip_Cons lstrip_def)
      moreover have "rstrip (lstrip as) = []"
        using Cons.IH True by (simp add: lstrip_def)
      ultimately show ?thesis using l by simp
    next
      case False
      with \<open>isspace a\<close> have "lstrip (rstrip (a # as)) = lstrip (rstrip as)"
        by (simp add: rstrip_Cons lstrip_def)
      then show ?thesis using Cons.IH l by simp
    qed
  qed
qed

lemma strip_rstrip: "strip (rstrip s) = strip s"
  by (simp add: strip_def lstrip_rstrip rstrip_rstrip)

lemma rstrip_append_Cons: "\<not> isspace a \<Longrightarrow> rstrip (xs @ a # r) = xs @ a # rstrip r"
  by (induction xs) (auto simp: rstrip_Cons)

lemma strip_head: "strip s = c # cs \<Longrightarrow> \<not> isspace c"
proof -
  assume a: "strip s = c # cs"
  define t where "t = lstrip s"
  have "t = [] \<or> \<not> isspace (hd t)"
    unfolding t_def lstrip_def by (metis hd_dropWhile)
  moreover from a have r: "rstrip t = c # cs" by (simp add: strip_def t_def)
  ultimately show ?thesis
    by (cases t) (auto simp: rstrip_Cons rstrip_Nil split: if_splits)
qed

lemma drop_newlines_strip: "dropWhile (\<lambda>c. c = CHR 0x0A) (strip s) = strip s"
proof (cases "strip s")
  case Nil
  then show ?thesis by simp
next
  case (Cons c cs)
  then have "\<not> isspace c" by (rule strip_head)
  then have "c \<noteq> CHR 0x0A" by (auto simp: isspace_def)
  with Cons show ?thesis by simp
qed

lemma startswith_prefix: "startswith (p @ s) p"
  by (induction p) auto

lemma strip_tool_marker_cut:
  assumes "CHR '']'' \<notin> set m"
  shows "strip_tool_marker (''[Tools:'' @ m @ '']'' @ r) = strip r"
proof -
  define p where "p = ''[Tools:'' @ m"
  define rs where "rs = rstrip r"
  have ns: "\<not> isspace CHR '']''" "\<not> isspace CHR ''[''" by (simp_all add: isspace_def)
  have input: "''[Tools:'' @ m @ '']'' @ r = p @ CHR '']'' # r" by (simp add: p_def)
  have "lstrip (p @ CHR '']'' # r) = p @ CHR '']'' # r"
    using ns by (simp add: lstrip_def p_def)
  moreover have "rstrip (p @ CHR '']'' # r) = p @ CHR '']'' # rs"
    unfolding rs_def using ns(1) by (rule rstrip_append_Cons)
  ultimately have c: "strip (p @ CHR '']'' # r) = p @ CHR '']'' # rs"
    by (simp add: strip_def)
  have "startswith (''[Tools:'' @ (m @ CHR '']'' # rs)) ''[Tools:''"
    by (rule startswith_prefix)
  then have s: "startswith (p @ CHR '']'' # rs) ''[Tools:''" by (simp add: p_def)
  have "\<And>x. x \<in> set p \<Longrightarrow> x \<noteq> CHR '']''" using assms by (auto simp: p_def)
  then have "takeWhile (\<lambda>c. c \<noteq> CHR '']'') (p @ CHR '']'' # rs) =
      p @ takeWhile (\<lambda>c. c \<noteq> CHR '']'') (CHR '']'' # rs)"
    by (rule takeWhile_append2)
  then have t: "length (takeWhile (\<lambda>c. c \<noteq> CHR '']'') (p @ CHR '']'' # rs)) = length p"
    by simp
  have d: "drop (length p + 1) (p @ CHR '']'' # rs) = rs" by simp
  have "strip_tool_marker (p @ CHR '']'' # r) = dropWhile (\<lambda>c. c = CHR 0x0A) (strip rs)"
    unfolding strip_tool_marker_def Let_def c t d using s by simp
  then show ?thesis unfolding input by (simp add: rs_def strip_rstrip drop_newlines_strip)
qed

lemma strip_tool_marker_plain:
  "\<not> startswith (strip r) ''[Tools:'' \<Longrightarrow> strip_tool_marker r = strip r"
  by (simp add: strip_tool_marker_def Let_def)

lemma collapse_runs_fixed: "\<not> adjacent_assistants ms \<Longrightarrow> collapse_runs ms = ms"
proof (induction ms rule: collapse_runs.induct)
  case 1
  then show ?case by simp
next
  case (2 m ms)
  show ?case
  proof (cases "is_assistant m")
    case False
    with 2 show ?thesis by (auto simp: adjacent_Cons)
  next
    case True
    show ?thesis
    proof (cases ms)
      case Nil
      with True show ?thesis by simp
    next
      case (Cons b bs)
      with 2(3) True have nb: "\<not> is_assistant b" and na: "\<not> adjacent_assistants ms"
        by auto
      from nb Cons have tw: "takeWhile is_assistant ms = []" "dropWhile is_assistant ms = ms"
        by simp_all
      from 2(1)[OF True] na tw have "collapse_runs ms = ms" by simp
      with True tw show ?thesis by simp
    qed
  qed
qed

lemma group_and_deduplicate_idem:
  "group_and_deduplicate_messages (group_and_deduplicate_messages raw) =
     group_and_deduplicate_messages raw"
  by (simp add: group_and_deduplicate_collapse collapse_runs_fixed collapse_runs_no_adjacent)

lemma strip_leading_space: "list_all isspace ws \<Longrightarrow> strip (ws @ s) = strip s"
  by (simp add: strip_def lstrip_def list_all_iff)

text \<open>
  Claim C3, as amended. A content text that starts, after leading whitespace, with the
  marker \<^verbatim>\<open>[Tools:\<close> is
  cut after the first \<^verbatim>\<open>]\<close> and trimmed before the tool calls are rendered, so a
  stored marker is replaced and not repeated: such a text renders as the text after the
  marker does, when that text has no second marker. Grouping is idempotent: grouping the
  grouped rows again changes nothing.
\<close>

theorem tool_marker_replaced:
  "(list_all isspace ws \<and> CHR '']'' \<notin> set m \<longrightarrow>
      strip_tool_marker (ws @ ''[Tools:'' @ m @ '']'' @ r) = strip r) \<and>
   (list_all isspace ws \<and> CHR '']'' \<notin> set m \<and> \<not> startswith (strip r) ''[Tools:'' \<longrightarrow>
      format_assistant_message_for_display loads repr (ws @ ''[Tools:'' @ m @ '']'' @ r) nd ptype =
      format_assistant_message_for_display loads repr r nd ptype) \<and>
   group_and_deduplicate_messages (group_and_deduplicate_messages raw) =
     group_and_deduplicate_messages raw"
proof -
  have lead: "strip_tool_marker (ws @ ''[Tools:'' @ m @ '']'' @ r) =
      strip_tool_marker (''[Tools:'' @ m @ '']'' @ r)"
    if "list_all isspace ws"
    using strip_leading_space[OF that, of "''[Tools:'' @ m @ '']'' @ r"]
    by (simp only: strip_tool_marker_def)
  have cut: "strip_tool_marker (ws @ ''[Tools:'' @ m @ '']'' @ r) = strip r"
    if "list_all isspace ws" and "CHR '']'' \<notin> set m"
    using lead[OF that(1)] strip_tool_marker_cut[OF that(2), of r] by (rule trans)
  have "format_assistant_message_for_display loads repr (ws @ ''[Tools:'' @ m @ '']'' @ r) nd ptype =
      format_assistant_message_for_display loads repr r nd ptype"
    if "list_all isspace ws" and "CHR '']'' \<notin> set m" and "\<not> startswith (strip r) ''[Tools:''"
  proof -
    have "strip_tool_marker (ws @ ''[Tools:'' @ m @ '']'' @ r) = strip_tool_marker r"
      using cut[OF that(1,2)] strip_tool_marker_plain[OF that(3)] by simp
    then show ?thesis by (simp only: format_assistant_message_for_display_def)
  qed
  then show ?thesis
    using cut group_and_deduplicate_idem[of raw] by blast
qed

theorem tool_marker_replaced_witness:
  "strip_tool_marker ''[Tools: get_disassembly]\<newline>It reads one byte.'' = ''It reads one byte.'' \<and>
   format_assistant_message_for_display loads_addr (\<lambda>v. [])
      ''[Tools: get_disassembly]\<newline>It reads one byte.''
      [(''tool_calls'', disassembly_call)] ''openai'' =
     Inr ''[Tool: get_disassembly(addr=4096)]\<newline>\<newline>It reads one byte.''"
proof -
  have m: "CHR '']'' \<notin> set '' get_disassembly''" by simp
  have s: "strip ''\<newline>It reads one byte.'' = ''It reads one byte.''"
    by (simp add: strip_def lstrip_def rstrip_def isspace_def)
  have n: "\<not> startswith (strip ''\<newline>It reads one byte.'') ''[Tools:''"
    unfolding s by simp
  have i: "''[Tools:'' @ '' get_disassembly'' @ '']'' @ ''\<newline>It reads one byte.'' =
      ''[Tools: get_disassembly]\<newline>It reads one byte.''"
    by simp
  have w: "list_all isspace []" by simp
  note inst = tool_marker_replaced[of "[]" "'' get_disassembly''" "''\<newline>It reads one byte.''"
      loads_addr "\<lambda>v. []" "[(''tool_calls'', disassembly_call)]" "''openai''" "[]",
      unfolded append_Nil]
  have a: "strip_tool_marker ''[Tools: get_disassembly]\<newline>It reads one byte.'' = ''It reads one byte.''"
    using inst m w unfolding i s by blast
  have t: "tool_calls_of loads_addr [(''tool_calls'', disassembly_call)] ''openai'' =
      Inr (True, [(JStr ''get_disassembly'', JDict [(''addr'', JInt 4096)])])"
    by (simp add: tool_calls_of_def disassembly_call_def has_key_def get_default_def
        over_items_def py_iter_def function_call_def add_call_def parse_arguments_def loads_addr_def)
  have f: "format_tool_calls_with_params (\<lambda>v. [])
      [(JStr ''get_disassembly'', JDict [(''addr'', JInt 4096)])]
      = Inr ''[Tool: get_disassembly(addr=4096)]''"
    by (simp add: format_tool_calls_with_params_def format_args_compact_def format_arg_def
        py_str_def str_int_4096)
  have "format_assistant_message_for_display loads_addr (\<lambda>v. [])
      ''[Tools: get_disassembly]\<newline>It reads one byte.''
      [(''tool_calls'', disassembly_call)] ''openai'' =
      format_assistant_message_for_display loads_addr (\<lambda>v. []) ''\<newline>It reads one byte.''
      [(''tool_calls'', disassembly_call)] ''openai''"
    using inst m n w unfolding i by blast
  also have "\<dots> = Inr ''[Tool: get_disassembly(addr=4096)]\<newline>\<newline>It reads one byte.''"
    using n by (simp add: format_assistant_message_for_display_def t f strip_tool_marker_plain s)
  finally show ?thesis using a by blast
qed

text \<open>
  The claim as stated fails: the rendering of one tool call starts with
  \<^verbatim>\<open>[Tool: \<close>, which is not the marker that is cut off, so a content text that is
  itself a rendering gets the tool call in front of it a second time.
\<close>

theorem rendering_twice_counterexample:
  "format_assistant_message_for_display loads_addr (\<lambda>v. []) []
      [(''tool_calls'', disassembly_call)] ''openai'' =
     Inr ''[Tool: get_disassembly(addr=4096)]'' \<and>
   format_assistant_message_for_display loads_addr (\<lambda>v. []) ''[Tool: get_disassembly(addr=4096)]''
      [(''tool_calls'', disassembly_call)] ''openai'' =
     Inr ''[Tool: get_disassembly(addr=4096)]\<newline>\<newline>[Tool: get_disassembly(addr=4096)]''"
proof -
  have t: "tool_calls_of loads_addr [(''tool_calls'', disassembly_call)] ''openai'' =
      Inr (True, [(JStr ''get_disassembly'', JDict [(''addr'', JInt 4096)])])"
    by (simp add: tool_calls_of_def disassembly_call_def has_key_def get_default_def
        over_items_def py_iter_def function_call_def add_call_def parse_arguments_def loads_addr_def)
  have f: "format_tool_calls_with_params (\<lambda>v. [])
      [(JStr ''get_disassembly'', JDict [(''addr'', JInt 4096)])]
      = Inr ''[Tool: get_disassembly(addr=4096)]''"
    by (simp add: format_tool_calls_with_params_def format_args_compact_def format_arg_def
        py_str_def str_int_4096)
  have s: "strip ''[Tool: get_disassembly(addr=4096)]'' = ''[Tool: get_disassembly(addr=4096)]''"
    "strip [] = []"
    by (simp_all add: strip_def lstrip_def rstrip_def isspace_def)
  have c: "strip_tool_marker ''[Tool: get_disassembly(addr=4096)]'' =
      ''[Tool: get_disassembly(addr=4096)]''" "strip_tool_marker [] = []"
    by (simp_all add: strip_tool_marker_def s)
  show ?thesis
    by (simp add: format_assistant_message_for_display_def t f c)
qed

subsection \<open>Reading native messages back\<close>

text \<open>The loop \<^verbatim>\<open>json.loads(row[...])\<close> over the fetched rows; a text that does not parse
  ends the read with the \<^verbatim>\<open>RuntimeError\<close> of the handler.\<close>

fun decode_all :: "(string \<Rightarrow> json option) \<Rightarrow> string list \<Rightarrow> error + json list" where
  "decode_all loads [] = Inr []"
| "decode_all loads (s # ss) =
     (case loads s of
        None \<Rightarrow> Inl RuntimeError
      | Some v \<Rightarrow> (case decode_all loads ss of Inl e \<Rightarrow> Inl e | Inr vs \<Rightarrow> Inr (v # vs)))"

text \<open>
  \<^verbatim>\<open>get_native_messages_for_provider\<close>:
  \<^verbatim>\<open>SELECT native_message_data ... WHERE binary_hash = ? AND chat_id = ? AND provider_type = ?
  ORDER BY message_order ASC\<close>
\<close>

definition get_native_messages_for_provider ::
  "(string \<Rightarrow> json option) \<Rightarrow> message_row table \<Rightarrow> string \<Rightarrow> string \<Rightarrow> string \<Rightarrow> error + json list" where
  "get_native_messages_for_provider loads t bh cid ptype =
     decode_all loads (map native_message_data
       (sort_key message_order
          (filter (\<lambda>r. in_chat bh cid r \<and> provider_type r = ptype) (rows t))))"

text \<open>
  \<^verbatim>\<open>get_native_messages\<close>: the provider filters when it is given and not empty. A
  message of the result is the row with its decoded payload.
\<close>

definition get_native_messages ::
  "(string \<Rightarrow> json option) \<Rightarrow> message_row table \<Rightarrow> string \<Rightarrow> string \<Rightarrow> string option \<Rightarrow>
   error + (message_row \<times> json) list" where
  "get_native_messages loads t bh cid ptype =
     (let rs = sort_key message_order
                 (filter (\<lambda>r. in_chat bh cid r \<and>
                              (case ptype of None \<Rightarrow> True
                               | Some p \<Rightarrow> p = [] \<or> provider_type r = p)) (rows t))
      in case decode_all loads (map native_message_data rs) of
           Inl e \<Rightarrow> Inl e
         | Inr vs \<Rightarrow> Inr (zip rs vs))"

text \<open>The payload and the provider of a request.\<close>

definition payload_of :: "native_request \<Rightarrow> (string \<times> json) list" where
  "payload_of q = (case q of (bh, cid, nm, ptype, parent, thread) \<Rightarrow> nm)"

definition provider_of :: "native_request \<Rightarrow> string" where
  "provider_of q = (case q of (bh, cid, nm, ptype, parent, thread) \<Rightarrow> ptype)"

text \<open>The codec returns the payload of a request: \<^verbatim>\<open>json.loads(json.dumps(m)) == m\<close>.\<close>

definition round_trips :: "(json \<Rightarrow> string) \<Rightarrow> (string \<Rightarrow> json option) \<Rightarrow> native_request \<Rightarrow> bool" where
  "round_trips dumps loads q = (loads (dumps (JDict (payload_of q))) = Some (JDict (payload_of q)))"

subsection \<open>The native payload round trip\<close>

text \<open>
  What a row keeps of a request: the provider and the payload as text.
\<close>

definition stored :: "message_row \<Rightarrow> string \<times> string" where
  "stored r = (provider_type r, native_message_data r)"

text \<open>
  What a request hands to the store: its provider and the text of its payload.
\<close>

definition sent :: "(json \<Rightarrow> string) \<Rightarrow> native_request \<Rightarrow> string \<times> string" where
  "sent dumps q = (provider_of q, dumps (JDict (payload_of q)))"

lemma save_native_messages_stored:
  assumes "chat_orders (rows t) bh cid = map int [0..<k]"
    and "list_all (accepted valid extract) qs"
  shows "\<exists>t'. save_native_messages valid extract dumps t qs = Inr t' \<and>
           chat_orders (rows t') bh cid = map int [0..<k + length (filter (to_chat bh cid) qs)] \<and>
           map stored (filter (in_chat bh cid) (rows t')) =
             map stored (filter (in_chat bh cid) (rows t)) @
             map (sent dumps) (filter (to_chat bh cid) qs)"
  using assms
proof (induction qs arbitrary: t k)
  case Nil
  then show ?case by simp
next
  case (Cons q qs)
  obtain bh' cid' nm ptype parent thread where q: "q = (bh', cid', nm, ptype, parent, thread)"
    by (cases q) auto
  from Cons.prems(2) obtain rl ctext mtype
    where ok: "valid ptype" "extract nm ptype = Inr (rl, ctext, mtype)" "bindable parent"
    by (auto simp: q accepted_def split: sum.splits)
  from Cons.prems(2) have rest: "list_all (accepted valid extract) qs" by simp
  define mk where "mk = (\<lambda>i. \<lparr>row_id = i, binary_hash = bh', chat_id = cid',
            message_order = next_message_order (rows t) bh' cid', role = rl, provider_type = ptype,
            native_message_data = dumps (JDict nm),
            content_text = ctext, message_type = mtype,
            parent_message_id = parent,
            conversation_thread_id = thread\<rparr>)"
  define t1 where "t1 = snd (insert_row mk t)"
  have step: "save_native_message valid extract dumps t bh' cid' nm ptype parent thread
                = Inr (fst (insert_row mk t), t1)"
    using ok by (simp add: save_native_message_inserts[where rl = rl and ctext = ctext and mtype = mtype] mk_def t1_def)
  have rows1: "rows t1 = rows t @ [mk (sequence t + 1)]"
    by (simp add: t1_def insert_row_def Let_def)
  show ?case
  proof (cases "to_chat bh cid q")
    case True
    then have same: "bh' = bh" "cid' = cid" by (simp_all add: to_chat_def q)
    have inc: "in_chat bh cid (mk (sequence t + 1))" by (simp add: in_chat_def mk_def same)
    have "next_message_order (rows t) bh cid = int k"
      using Cons.prems(1) by (rule next_message_order_dense)
    then have o: "chat_orders (rows t1) bh cid = map int [0..<Suc k]"
      using Cons.prems(1) same
      by (simp add: t1_def chat_orders_insert_row mk_def in_chat_def)
    have s: "map stored (filter (in_chat bh cid) (rows t1)) =
        map stored (filter (in_chat bh cid) (rows t)) @ [sent dumps q]"
      using inc by (simp add: rows1 stored_def sent_def mk_def q provider_of_def payload_of_def)
    from Cons.IH[OF o rest] True step s show ?thesis by (auto simp: q)
  next
    case False
    then have ninc: "\<not> in_chat bh cid (mk (sequence t + 1))"
      by (simp add: to_chat_def q in_chat_def mk_def)
    then have o: "chat_orders (rows t1) bh cid = map int [0..<k]"
      using Cons.prems(1) by (simp add: t1_def chat_orders_insert_row)
    have s: "map stored (filter (in_chat bh cid) (rows t1)) =
        map stored (filter (in_chat bh cid) (rows t))"
      using ninc by (simp add: rows1)
    from Cons.IH[OF o rest] False step s show ?thesis by (auto simp: q)
  qed
qed

lemma map_filter_fst:
  "map f xs = map g ys \<Longrightarrow>
   map (\<lambda>x. snd (f x)) (filter (\<lambda>x. P (fst (f x))) xs) =
   map (\<lambda>y. snd (g y)) (filter (\<lambda>y. P (fst (g y))) ys)"
proof (induction xs arbitrary: ys)
  case Nil
  then show ?case by simp
next
  case (Cons x xs)
  then obtain y ys' where ys: "ys = y # ys'" "f x = g y" "map f xs = map g ys'"
    by (cases ys) auto
  from Cons.IH[OF ys(3)] ys show ?case by simp
qed

lemma decode_all_round_trip:
  "list_all (round_trips dumps loads) qs \<Longrightarrow>
   decode_all loads (map (\<lambda>q. dumps (JDict (payload_of q))) qs) =
     Inr (map (\<lambda>q. JDict (payload_of q)) qs)"
  by (induction qs) (simp_all add: round_trips_def)

lemma decode_all_length: "decode_all loads ss = Inr vs \<Longrightarrow> length vs = length ss"
  by (induction ss arbitrary: vs) (auto split: option.splits sum.splits)

lemma sorted_upt_int: "sorted (map int [0..<n])"
  by (induction n) (auto simp: sorted_append)

lemma in_chat_rows_sorted:
  assumes "chat_orders rs bh cid = map int [0..<n]"
  shows "sort_key message_order (filter (\<lambda>r. in_chat bh cid r \<and> P r) rs) =
           filter P (filter (in_chat bh cid) rs)"
proof -
  have "sorted (map message_order (filter (in_chat bh cid) rs))"
    using assms sorted_upt_int[of n] by (simp add: chat_orders_def)
  then have "sorted (map message_order (filter P (filter (in_chat bh cid) rs)))"
    by (rule sorted_filter)
  then have "sort_key message_order (filter P (filter (in_chat bh cid) rs)) =
      filter P (filter (in_chat bh cid) rs)"
    by (rule sort_key_id_if_sorted)
  moreover have "filter (\<lambda>r. in_chat bh cid r \<and> P r) rs = filter P (filter (in_chat bh cid) rs)"
    by (simp only: filter_filter)
  ultimately show ?thesis by (simp only:)
qed

text \<open>
  Claim C4. From a chat with no rows, after any sequence of saves that pass the checks
  and bind a parent id SQLite can hold,
  \<^verbatim>\<open>get_native_messages_for_provider\<close> returns the payloads that were saved to the
  chat under the provider, as they were passed and in the order of the saves, and
  \<^verbatim>\<open>get_native_messages\<close> without a provider returns those of all the saves to the
  chat. The fields that \<^verbatim>\<open>extract_display_info\<close> derives play no part:
  \<open>extract\<close> is arbitrary. The codec is assumed to return each saved payload,
  \<^verbatim>\<open>json.loads(json.dumps(m)) == m\<close>.
\<close>

theorem native_payload_round_trip:
  assumes "chat_orders (rows t) bh cid = []"
    and "list_all (accepted valid extract) qs"
    and "list_all (round_trips dumps loads) qs"
  shows "\<exists>t'. save_native_messages valid extract dumps t qs = Inr t' \<and>
           get_native_messages_for_provider loads t' bh cid p =
             Inr (map (\<lambda>q. JDict (payload_of q))
                    (filter (\<lambda>q. provider_of q = p) (filter (to_chat bh cid) qs))) \<and>
           (\<exists>ms. get_native_messages loads t' bh cid None = Inr ms \<and>
              map snd ms = map (\<lambda>q. JDict (payload_of q)) (filter (to_chat bh cid) qs))"
proof -
  have e: "chat_orders (rows t) bh cid = map int [0..<0]" using assms(1) by simp
  have none: "filter (in_chat bh cid) (rows t) = []"
    using assms(1) by (simp add: chat_orders_def)
  from save_native_messages_stored[OF e assms(2), of dumps]
  obtain t' where run: "save_native_messages valid extract dumps t qs = Inr t'"
    and ord0: "chat_orders (rows t') bh cid = map int [0..<0 + length (filter (to_chat bh cid) qs)]"
    and st0: "map stored (filter (in_chat bh cid) (rows t')) =
               map stored (filter (in_chat bh cid) (rows t)) @
               map (sent dumps) (filter (to_chat bh cid) qs)"
    by blast
  from ord0 have ord: "chat_orders (rows t') bh cid = map int [0..<length (filter (to_chat bh cid) qs)]"
    by simp
  from st0 have st: "map stored (filter (in_chat bh cid) (rows t')) =
               map (sent dumps) (filter (to_chat bh cid) qs)"
    by (simp add: none)
  let ?qs = "filter (to_chat bh cid) qs"
  have rt: "list_all (round_trips dumps loads) (filter Q ?qs)" for Q
    using assms(3) by (simp add: list_all_iff)
  have texts: "map native_message_data (filter (\<lambda>r. Q (provider_type r)) (filter (in_chat bh cid) (rows t'))) =
      map (\<lambda>q. dumps (JDict (payload_of q))) (filter (\<lambda>q. Q (provider_of q)) ?qs)" for Q
    using map_filter_fst[OF st, of Q] by (simp add: stored_def sent_def)
  have a: "get_native_messages_for_provider loads t' bh cid p =
      Inr (map (\<lambda>q. JDict (payload_of q)) (filter (\<lambda>q. provider_of q = p) ?qs))"
    unfolding get_native_messages_for_provider_def
      in_chat_rows_sorted[OF ord, of "\<lambda>r. provider_type r = p"]
      texts[of "\<lambda>x. x = p"]
    using rt by (rule decode_all_round_trip)
  have s0: "sort_key message_order (filter (\<lambda>r. in_chat bh cid r \<and> True) (rows t')) =
      filter (\<lambda>r. True) (filter (in_chat bh cid) (rows t'))"
    by (rule in_chat_rows_sorted[OF ord])
  have t0: "map native_message_data (filter (in_chat bh cid) (rows t')) =
      map (\<lambda>q. dumps (JDict (payload_of q))) ?qs"
    using texts[of "\<lambda>x. True"] by simp
  have d0: "decode_all loads (map native_message_data (filter (in_chat bh cid) (rows t'))) =
      Inr (map (\<lambda>q. JDict (payload_of q)) ?qs)"
    unfolding t0 using rt[of "\<lambda>q. True"] by (simp add: decode_all_round_trip)
  have len: "length (filter (in_chat bh cid) (rows t')) = length ?qs"
    using arg_cong[OF t0, of length] by simp
  have b: "get_native_messages loads t' bh cid None =
      Inr (zip (filter (in_chat bh cid) (rows t')) (map (\<lambda>q. JDict (payload_of q)) ?qs))"
    using s0 d0 by (simp add: get_native_messages_def Let_def)
  have "map snd (zip (filter (in_chat bh cid) (rows t')) (map (\<lambda>q. JDict (payload_of q)) ?qs)) =
      map (\<lambda>q. JDict (payload_of q)) ?qs"
    using len by (simp add: map_snd_zip)
  then have c: "\<exists>ms. get_native_messages loads t' bh cid None = Inr ms \<and>
      map snd ms = map (\<lambda>q. JDict (payload_of q)) ?qs"
    using b by (intro exI[of _ "zip (filter (in_chat bh cid) (rows t')) (map (\<lambda>q. JDict (payload_of q)) ?qs)"] conjI)
  show ?thesis
    by (rule exI[of _ t']) (intro conjI run a c)
qed

text \<open>
  A codec for the examples, on two payloads.
\<close>

definition dumps_role :: "json \<Rightarrow> string" where
  "dumps_role v =
     (if v = JDict [(''role'', JStr ''user'')] then ''{'' @ [dquote] @ ''role'' @ [dquote] @ '': '' @ [dquote] @ ''user'' @ [dquote] @ ''}''
      else if v = JDict [(''role'', JStr ''assistant'')] then ''{'' @ [dquote] @ ''role'' @ [dquote] @ '': '' @ [dquote] @ ''assistant'' @ [dquote] @ ''}''
      else ''null'')"

definition loads_role :: "string \<Rightarrow> json option" where
  "loads_role s =
     (if s = ''{'' @ [dquote] @ ''role'' @ [dquote] @ '': '' @ [dquote] @ ''user'' @ [dquote] @ ''}''
      then Some (JDict [(''role'', JStr ''user'')])
      else if s = ''{'' @ [dquote] @ ''role'' @ [dquote] @ '': '' @ [dquote] @ ''assistant'' @ [dquote] @ ''}''
      then Some (JDict [(''role'', JStr ''assistant'')])
      else if s = ''null'' then Some JNull else None)"

definition role_requests :: "native_request list" where
  "role_requests =
     [(''b'', ''c'', [(''role'', JStr ''user'')], ''openai'', None, None),
      (''b'', ''d'', [(''role'', JStr ''user'')], ''openai'', None, None),
      (''b'', ''c'', [(''role'', JStr ''assistant'')], ''ollama'', Some 1, None),
      (''b'', ''c'', [(''role'', JStr ''assistant'')], ''openai'', None, None)]"

theorem native_payload_round_trip_witness:
  "\<exists>t'. save_native_messages (\<lambda>p. True) (\<lambda>nm p. Inr (''assistant'', ''text'', ''text''))
           dumps_role empty_table role_requests = Inr t' \<and>
         get_native_messages_for_provider loads_role t' ''b'' ''c'' ''openai'' =
           Inr [JDict [(''role'', JStr ''user'')], JDict [(''role'', JStr ''assistant'')]] \<and>
         (\<exists>ms. get_native_messages loads_role t' ''b'' ''c'' None = Inr ms \<and>
            map snd ms = [JDict [(''role'', JStr ''user'')], JDict [(''role'', JStr ''assistant'')],
                          JDict [(''role'', JStr ''assistant'')]])"
proof -
  have h1: "chat_orders (rows (empty_table :: message_row table)) ''b'' ''c'' = []"
    by (simp add: empty_table_def chat_orders_def)
  have h2: "list_all (accepted (\<lambda>p. True) (\<lambda>nm p. Inr (''assistant'', ''text'', ''text'')))
      role_requests"
    by (simp add: role_requests_def accepted_def bindable_def sqlite_integer_def)
  have h3: "list_all (round_trips dumps_role loads_role) role_requests"
    by (simp add: role_requests_def round_trips_def payload_of_def dumps_role_def loads_role_def)
  have f1: "map (\<lambda>q. JDict (payload_of q))
      (filter (\<lambda>q. provider_of q = ''openai'') (filter (to_chat ''b'' ''c'') role_requests)) =
      [JDict [(''role'', JStr ''user'')], JDict [(''role'', JStr ''assistant'')]]"
    by (simp add: role_requests_def to_chat_def provider_of_def payload_of_def)
  have f2: "map (\<lambda>q. JDict (payload_of q)) (filter (to_chat ''b'' ''c'') role_requests) =
      [JDict [(''role'', JStr ''user'')], JDict [(''role'', JStr ''assistant'')],
       JDict [(''role'', JStr ''assistant'')]]"
    by (simp add: role_requests_def to_chat_def payload_of_def)
  have "\<exists>t'. save_native_messages (\<lambda>p. True) (\<lambda>nm p. Inr (''assistant'', ''text'', ''text''))
           dumps_role empty_table role_requests = Inr t' \<and>
         get_native_messages_for_provider loads_role t' ''b'' ''c'' ''openai'' =
           Inr (map (\<lambda>q. JDict (payload_of q))
             (filter (\<lambda>q. provider_of q = ''openai'') (filter (to_chat ''b'' ''c'') role_requests))) \<and>
         (\<exists>ms. get_native_messages loads_role t' ''b'' ''c'' None = Inr ms \<and>
            map snd ms = map (\<lambda>q. JDict (payload_of q)) (filter (to_chat ''b'' ''c'') role_requests))"
    using h1 h2 h3 by (rule native_payload_round_trip)
  then show ?thesis unfolding f1 f2 .
qed

subsection \<open>The context cache\<close>

text \<open>
  A naive \<^verbatim>\<open>datetime\<close>. \<^verbatim>\<open>isoformat()\<close> writes it with a \<^verbatim>\<open>T\<close> between date
  and time and with the microseconds when there are any; SQLite's
  \<^verbatim>\<open>CURRENT_TIMESTAMP\<close> is the text \<^verbatim>\<open>YYYY-MM-DD HH:MM:SS\<close> of the time in UTC.
\<close>

record datetime =
  year :: nat
  month :: nat
  day :: nat
  hour :: nat
  minute :: nat
  second :: nat
  microsecond :: nat

definition pad :: "nat \<Rightarrow> nat \<Rightarrow> string" where
  "pad w n = replicate (w - length (str_nat n)) CHR ''0'' @ str_nat n"

definition isoformat :: "datetime \<Rightarrow> string" where
  "isoformat d =
     pad 4 (year d) @ ''-'' @ pad 2 (month d) @ ''-'' @ pad 2 (day d) @ ''T'' @
     pad 2 (hour d) @ '':'' @ pad 2 (minute d) @ '':'' @ pad 2 (second d) @
     (if microsecond d = 0 then [] else ''.'' @ pad 6 (microsecond d))"

definition current_timestamp :: "datetime \<Rightarrow> string" where
  "current_timestamp d =
     pad 4 (year d) @ ''-'' @ pad 2 (month d) @ ''-'' @ pad 2 (day d) @ '' '' @
     pad 2 (hour d) @ '':'' @ pad 2 (minute d) @ '':'' @ pad 2 (second d)"

text \<open>One moment before another, both read off the same clock.\<close>

definition earlier :: "datetime \<Rightarrow> datetime \<Rightarrow> bool" where
  "earlier a b =
     ([year a, month a, day a, hour a, minute a, second a, microsecond a]
        < [year b, month b, day b, hour b, minute b, second b, microsecond b])"

text \<open>
  \<^verbatim>\<open>BNContext\<close>. The column \<^verbatim>\<open>expires_at\<close> holds the text that was bound to it, or
  \<^verbatim>\<open>NULL\<close>; SQLite compares two texts byte by byte, which is the order of strings here.
\<close>

record context_row = keyed_row +
  function_start :: int
  context_data :: string
  expires_at :: "string option"

text \<open>\<^verbatim>\<open>expires_at IS NULL OR expires_at > CURRENT_TIMESTAMP\<close>\<close>

definition unexpired :: "string \<Rightarrow> context_row \<Rightarrow> bool" where
  "unexpired now r = (case expires_at r of None \<Rightarrow> True | Some e \<Rightarrow> e > now)"

text \<open>\<^verbatim>\<open>expires_at IS NOT NULL AND expires_at <= CURRENT_TIMESTAMP\<close>\<close>

definition expired :: "string \<Rightarrow> context_row \<Rightarrow> bool" where
  "expired now r = (case expires_at r of None \<Rightarrow> False | Some e \<Rightarrow> e \<le> now)"

text \<open>
  \<^verbatim>\<open>save_context_cache\<close>: \<open>expires\<close> is \<^verbatim>\<open>datetime.now() + timedelta(hours=ttl_hours)\<close>,
  on the local clock; \<^verbatim>\<open>INSERT OR REPLACE\<close> removes the row of the same key.
\<close>

definition save_context_cache ::
  "(json \<Rightarrow> string) \<Rightarrow> datetime \<Rightarrow> context_row table \<Rightarrow> string \<Rightarrow> int \<Rightarrow> (string \<times> json) list \<Rightarrow>
   int \<times> context_row table" where
  "save_context_cache dumps expires t bh fs data =
     insert_row (\<lambda>i. \<lparr>row_id = i, binary_hash = bh, function_start = fs,
                   context_data = dumps (JDict data), expires_at = Some (isoformat expires)\<rparr>)
       (t\<lparr>rows := filter (\<lambda>r. \<not> (binary_hash r = bh \<and> function_start r = fs)) (rows t)\<rparr>)"

text \<open>\<^verbatim>\<open>get_context_cache\<close>: \<open>now\<close> is \<^verbatim>\<open>CURRENT_TIMESTAMP\<close> at the call.\<close>

definition get_context_cache ::
  "(string \<Rightarrow> json option) \<Rightarrow> string \<Rightarrow> context_row table \<Rightarrow> string \<Rightarrow> int \<Rightarrow> error + json option" where
  "get_context_cache loads now t bh fs =
     (case filter (\<lambda>r. binary_hash r = bh \<and> function_start r = fs \<and> unexpired now r) (rows t) of
        [] \<Rightarrow> Inr None
      | r # rs \<Rightarrow> (case loads (context_data r) of
                    None \<Rightarrow> Inl RuntimeError
                  | Some v \<Rightarrow> Inr (Some v)))"

text \<open>\<^verbatim>\<open>cleanup_expired_context\<close>: the number of deleted rows and the table without them.\<close>

definition cleanup_expired_context :: "string \<Rightarrow> context_row table \<Rightarrow> nat \<times> context_row table" where
  "cleanup_expired_context now t =
     (length (filter (expired now) (rows t)),
      t\<lparr>rows := filter (\<lambda>r. \<not> expired now r) (rows t)\<rparr>)"

subsection \<open>Expiry of cached context\<close>

text \<open>
  An entry saved at 10:00 on 3 November 2026 with one hour to live, on a host whose
  local clock is UTC, expires at 11:00; it is read at 12:00 the same day.
\<close>

definition expiry_moment :: datetime where
  "expiry_moment =
     \<lparr>year = 2026, month = 11, day = 3, hour = 11, minute = 0, second = 0, microsecond = 0\<rparr>"

definition read_moment :: datetime where
  "read_moment =
     \<lparr>year = 2026, month = 11, day = 3, hour = 12, minute = 0, second = 0, microsecond = 0\<rparr>"

text \<open>
  The cache after that one save into the empty table.
\<close>

definition cached_once :: "context_row table" where
  "cached_once =
     snd (save_context_cache dumps_role expiry_moment empty_table ''h'' 4096
            [(''role'', JStr ''user'')])"

lemma isoformat_expiry_moment: "isoformat expiry_moment = ''2026-11-03T11:00:00''"
  by (simp add: isoformat_def expiry_moment_def pad_def str_nat.simps)

lemma current_timestamp_read_moment: "current_timestamp read_moment = ''2026-11-03 12:00:00''"
  by (simp add: current_timestamp_def read_moment_def pad_def str_nat.simps)

lemma expired_iff: "expired now = (\<lambda>r. \<not> unexpired now r)"
  by (rule ext) (auto simp: expired_def unexpired_def split: option.splits)

lemma cached_once_rows:
  "cached_once =
     \<lparr>rows = [\<lparr>row_id = 1, binary_hash = ''h'', function_start = 4096,
               context_data = dumps_role (JDict [(''role'', JStr ''user'')]),
               expires_at = Some ''2026-11-03T11:00:00''\<rparr>],
      sequence = 1\<rparr>"
  by (simp add: cached_once_def save_context_cache_def insert_row_def empty_table_def Let_def
      isoformat_expiry_moment)

text \<open>
  Claim C2, on the code. \<^verbatim>\<open>cleanup_expired_context\<close> deletes exactly the rows that
  \<^verbatim>\<open>get_context_cache\<close> refuses and returns their number. But which rows are
  those is decided by comparing two texts: \<^verbatim>\<open>expires_at\<close> is written by
  \<^verbatim>\<open>isoformat()\<close>, with \<^verbatim>\<open>T\<close> after the date, and \<^verbatim>\<open>CURRENT_TIMESTAMP\<close> has
  a space there, which sorts first. An entry that expired at 11:00 is therefore still
  returned at 12:00 of the same day, and the cleanup at 12:00 deletes nothing.
\<close>

theorem expired_context_is_read:
  "rows (snd (cleanup_expired_context now t)) = filter (unexpired now) (rows t) \<and>
   fst (cleanup_expired_context now t) = length (filter (\<lambda>r. \<not> unexpired now r) (rows t)) \<and>
   earlier expiry_moment read_moment \<and>
   get_context_cache loads_role (current_timestamp read_moment) cached_once ''h'' 4096 =
     Inr (Some (JDict [(''role'', JStr ''user'')])) \<and>
   cleanup_expired_context (current_timestamp read_moment) cached_once = (0, cached_once)"
proof -
  have a: "rows (snd (cleanup_expired_context now t)) = filter (unexpired now) (rows t)"
    by (simp add: cleanup_expired_context_def expired_iff)
  have b: "fst (cleanup_expired_context now t) = length (filter (\<lambda>r. \<not> unexpired now r) (rows t))"
    by (simp add: cleanup_expired_context_def expired_iff)
  have c: "earlier expiry_moment read_moment"
    by (simp add: earlier_def expiry_moment_def read_moment_def)
  have lt: "''2026-11-03 12:00:00'' < ''2026-11-03T11:00:00''"
    by (simp add: less_char_def)
  then have nle: "\<not> ''2026-11-03T11:00:00'' \<le> ''2026-11-03 12:00:00''"
    by (simp only: not_le)
  have d: "get_context_cache loads_role (current_timestamp read_moment) cached_once ''h'' 4096 =
     Inr (Some (JDict [(''role'', JStr ''user'')]))"
    unfolding current_timestamp_read_moment cached_once_rows
    using lt by (simp add: get_context_cache_def unexpired_def dumps_role_def loads_role_def)
  have e: "cleanup_expired_context (current_timestamp read_moment) cached_once = (0, cached_once)"
    unfolding current_timestamp_read_moment cached_once_rows
    using nle by (simp add: cleanup_expired_context_def expired_def)
  from a b c d e show ?thesis by (intro conjI)
qed

end
